theory Spec2Isabelle
  imports Complex_Main "HOL-Library.Word"
begin

unbundle bit_operations_syntax

section \<open>ali.h: logging (module ali\_log)\<close>

text \<open>
  The three levels of \<^verbatim>\<open>AliLogLevel\<close> with their enumeration values, the table
  \<^verbatim>\<open>loglevel_to_str\<close>, and the two globals \<^verbatim>\<open>ali_global_logfile\<close> and
  \<^verbatim>\<open>ali_global_loglevel\<close>. A stream is identified by a \<open>FILE\<close> value; what has been
  written to each stream is kept in \<open>written\<close>.
\<close>

datatype AliLogLevel = LOG_INFO | LOG_WARN | LOG_ERROR

fun loglevel_value :: "AliLogLevel \<Rightarrow> nat" where
  "loglevel_value LOG_INFO = 0"
| "loglevel_value LOG_WARN = 1"
| "loglevel_value LOG_ERROR = 2"

fun loglevel_to_str :: "AliLogLevel \<Rightarrow> string" where
  "loglevel_to_str LOG_INFO = ''INFO''"
| "loglevel_to_str LOG_WARN = ''WARN''"
| "loglevel_to_str LOG_ERROR = ''ERROR''"

datatype FILE = Stdout | Stderr | Stream nat

record ali_log =
  ali_global_logfile :: "FILE option"
  ali_global_loglevel :: AliLogLevel
  written :: "FILE \<Rightarrow> string"

text \<open>The initial values of the globals: no sink bound yet, minimum level \<^verbatim>\<open>LOG_INFO\<close>.\<close>

definition ali_log_init :: ali_log where
  "ali_log_init =
     \<lparr>ali_global_logfile = None, ali_global_loglevel = LOG_INFO, written = (\<lambda>f. [])\<rparr>"

definition fputs :: "ali_log \<Rightarrow> FILE \<Rightarrow> string \<Rightarrow> ali_log" where
  "fputs g f s = g\<lparr>written := (written g)(f := written g f @ s)\<rparr>"

text \<open>
  \<^verbatim>\<open>ali_log_log(level, fmt, ...)\<close>. The argument \<open>msg\<close> is the text that
  \<^verbatim>\<open>vfprintf\<close> produces from \<^verbatim>\<open>fmt\<close> and the variadic arguments. The guard is the
  source's \<^verbatim>\<open>ali_global_loglevel >= level\<close>.
\<close>

definition ali_log_log :: "ali_log \<Rightarrow> AliLogLevel \<Rightarrow> string \<Rightarrow> ali_log" where
  "ali_log_log g level msg =
     (let f = (case ali_global_logfile g of None \<Rightarrow> Stdout | Some f' \<Rightarrow> f');
          g1 = g\<lparr>ali_global_logfile := Some f\<rparr>
      in if loglevel_value (ali_global_loglevel g1) \<ge> loglevel_value level
         then fputs g1 f (''['' @ loglevel_to_str level @ ''] '' @ msg @ [CHR 0x0A])
         else g1)"

definition ali_log_error :: "ali_log \<Rightarrow> string \<Rightarrow> ali_log" where
  "ali_log_error g msg = ali_log_log g LOG_ERROR msg"


section \<open>ali.h: dynamic array (module ali\_da)\<close>

text \<open>
  The header \<^verbatim>\<open>AliDaHeader\<close> sits in front of the element storage; a handle is either
  \<^verbatim>\<open>NULL\<close> (\<open>None\<close>) or points at the storage of one header (\<open>Some h\<close>). \<open>da_data\<close> holds
  the elements written so far. Sizes are \<^verbatim>\<open>size_t\<close> in the source and natural numbers
  here: none of the statements below reaches the wrap-around at \<open>2 ^ 64\<close>. The
  \<^verbatim>\<open>item_size\<close> arguments only size the allocation and are left out.
\<close>

record 'a AliDaHeader =
  da_count :: nat
  da_capacity :: nat
  da_data :: "'a list"

type_synonym 'a ali_da = "'a AliDaHeader option"

definition ALI_DA_DEFAULT_INIT_CAPACITY :: nat where
  "ALI_DA_DEFAULT_INIT_CAPACITY = 8"

definition ali_da_new_header_with_size :: "nat \<Rightarrow> 'a AliDaHeader" where
  "ali_da_new_header_with_size init_capacity =
     \<lparr>da_count = 0, da_capacity = init_capacity, da_data = []\<rparr>"

definition ali_da_get_header_with_size :: "'a ali_da \<Rightarrow> 'a AliDaHeader" where
  "ali_da_get_header_with_size da =
     (case da of
        None \<Rightarrow> ali_da_new_header_with_size ALI_DA_DEFAULT_INIT_CAPACITY
      | Some h \<Rightarrow> h)"

text \<open>
  The loop \<^verbatim>\<open>while (h->count + to_add >= h->capacity)\<close> of
  \<^verbatim>\<open>ali_da_maybe_resize_with_size\<close>, on the capacity alone.
\<close>

function da_grow :: "nat \<Rightarrow> nat \<Rightarrow> nat \<Rightarrow> nat" where
  "da_grow cnt to_add cap =
     (if cnt + to_add \<ge> cap
      then da_grow cnt to_add (if cap = 0 then ALI_DA_DEFAULT_INIT_CAPACITY else cap * 2)
      else cap)"
  by pat_completeness auto
termination
  by (relation "measure (\<lambda>(cnt, to_add, cap). cnt + to_add + 1 - cap)")
     (auto simp: ALI_DA_DEFAULT_INIT_CAPACITY_def)

declare da_grow.simps [simp del]

definition ali_da_maybe_resize_with_size :: "'a ali_da \<Rightarrow> nat \<Rightarrow> 'a ali_da" where
  "ali_da_maybe_resize_with_size da to_add =
     (let h = ali_da_get_header_with_size da
      in if da_count h + to_add \<ge> da_capacity h
         then Some (h\<lparr>da_capacity := da_grow (da_count h) to_add (da_capacity h)\<rparr>)
         else Some h)"

text \<open>
  \<^verbatim>\<open>ali_da_append(da, item)\<close>: resize for one more element, store the item at index
  \<^verbatim>\<open>count\<close>, increment \<^verbatim>\<open>count\<close>.
\<close>

definition ali_da_append :: "'a ali_da \<Rightarrow> 'a \<Rightarrow> 'a ali_da" where
  "ali_da_append da item =
     (let da' = ali_da_maybe_resize_with_size da 1;
          h = ali_da_get_header_with_size da'
      in Some (h\<lparr>da_data :=
                    (if da_count h < length (da_data h)
                     then (da_data h)[da_count h := item]
                     else da_data h @ [item]),
                  da_count := da_count h + 1\<rparr>))"

definition ali_da_getlen :: "'a ali_da \<Rightarrow> nat" where
  "ali_da_getlen da =
     (case da of None \<Rightarrow> 0 | Some h \<Rightarrow> da_count (ali_da_get_header_with_size (Some h)))"

text \<open>Appending the elements of a list, in order, starting from the \<^verbatim>\<open>NULL\<close> handle.\<close>

definition da_appends :: "'a list \<Rightarrow> 'a ali_da" where
  "da_appends xs = fold (\<lambda>x da. ali_da_append da x) xs None"


section \<open>ali.h: UTF-8 (module ali\_utf8)\<close>

type_synonym ali_utf8 = "8 word"
type_synonym ali_utf8codepoint = "32 word"

definition ali_codepoint_size :: "ali_utf8codepoint \<Rightarrow> nat" where
  "ali_codepoint_size codepoint =
     (if codepoint > 0x10FFFF then 0
      else if codepoint > 0xFFFF then 4
      else if codepoint > 0x07FF then 3
      else if codepoint > 0x007F then 2
      else 1)"

text \<open>
  \<^verbatim>\<open>ali_codepoint_to_utf8\<close> writes into the function's static five-byte buffer
  \<^verbatim>\<open>utf8\<close> and returns its address, or \<^verbatim>\<open>NULL\<close> for an invalid codepoint. The first
  argument is the buffer before the call; \<open>Some\<close> carries the buffer the returned pointer
  designates, \<open>None\<close> is \<^verbatim>\<open>NULL\<close>.
\<close>

definition utf8_static_init :: "ali_utf8 list" where
  "utf8_static_init = [0, 0, 0, 0, 0]"

definition ali_codepoint_to_utf8 :: "ali_utf8 list \<Rightarrow> ali_utf8codepoint \<Rightarrow> ali_utf8 list option" where
  "ali_codepoint_to_utf8 utf8 codepoint =
     (let codepoint_size = ali_codepoint_size codepoint in
      if codepoint_size = 4 then
        Some (utf8[0 := 0xF0 OR ucast (drop_bit 18 codepoint AND 0x07),
                   1 := 0x80 OR ucast (drop_bit 12 codepoint AND 0x3F),
                   2 := 0x80 OR ucast (drop_bit 6 codepoint AND 0x3F),
                   3 := 0x80 OR ucast (drop_bit 0 codepoint AND 0x3F),
                   codepoint_size := 0])
      else if codepoint_size = 3 then
        Some (utf8[0 := 0xE0 OR ucast (drop_bit 12 codepoint AND 0x0F),
                   1 := 0x80 OR ucast (drop_bit 6 codepoint AND 0x3F),
                   2 := 0x80 OR ucast (drop_bit 0 codepoint AND 0x3F),
                   codepoint_size := 0])
      else if codepoint_size = 2 then
        Some (utf8[0 := 0xC0 OR ucast (drop_bit 6 codepoint AND 0x1F),
                   1 := 0x80 OR ucast (drop_bit 0 codepoint AND 0x3F),
                   codepoint_size := 0])
      else if codepoint_size = 1 then
        Some (utf8[0 := ucast codepoint, codepoint_size := 0])
      else None)"

text \<open>
  \<^verbatim>\<open>ali_utf8c_to_codepoint(utf8c, &codepoint_size)\<close>. The bytes are read from a list; a
  read behind its end has no defined value in C and makes the result \<open>None\<close>. Otherwise
  the result is the returned codepoint and what the call stores through
  \<^verbatim>\<open>codepoint_size\<close>: \<open>Some n\<close>, or \<open>None\<close> on the invalid branch, which returns \<open>-1\<close>
  without storing.
\<close>

definition byte_at :: "ali_utf8 list \<Rightarrow> nat \<Rightarrow> ali_utf8codepoint option" where
  "byte_at utf8c i = (if i < length utf8c then Some (ucast (utf8c ! i)) else None)"

definition ali_utf8c_to_codepoint :: "ali_utf8 list \<Rightarrow> (ali_utf8codepoint \<times> nat option) option" where
  "ali_utf8c_to_codepoint utf8c =
     Option.bind (byte_at utf8c 0) (\<lambda>b0.
       if b0 AND 0x80 = 0x00 then Some (b0, Some 1)
       else if b0 AND 0xE0 = 0xC0 then
         Option.bind (byte_at utf8c 1) (\<lambda>b1.
           Some (push_bit 6 (b0 AND 0x1F) OR push_bit 0 (b1 AND 0x3F), Some 2))
       else if b0 AND 0xF0 = 0xE0 then
         Option.bind (byte_at utf8c 1) (\<lambda>b1.
         Option.bind (byte_at utf8c 2) (\<lambda>b2.
           Some (push_bit 12 (b0 AND 0x1F) OR push_bit 6 (b1 AND 0x3F)
                 OR push_bit 0 (b2 AND 0x3F), Some 3)))
       else if b0 AND 0xF8 = 0xF0 then
         Option.bind (byte_at utf8c 1) (\<lambda>b1.
         Option.bind (byte_at utf8c 2) (\<lambda>b2.
         Option.bind (byte_at utf8c 3) (\<lambda>b3.
           Some (push_bit 18 (b0 AND 0x1F) OR push_bit 12 (b1 AND 0x3F)
                 OR push_bit 6 (b2 AND 0x3F) OR push_bit 0 (b3 AND 0x3F), Some 4))))
       else Some (- 1, None))"

text \<open>Encoding a codepoint and decoding the bytes that come back.\<close>

definition utf8_roundtrip :: "ali_utf8codepoint \<Rightarrow> (ali_utf8codepoint \<times> nat option) option" where
  "utf8_roundtrip cp = Option.bind (ali_codepoint_to_utf8 utf8_static_init cp) ali_utf8c_to_codepoint"


section \<open>ali.h: arena (module ali\_arena)\<close>

text \<open>
  \<^verbatim>\<open>size_t\<close> is a 64-bit word here (the header defines \<^verbatim>\<open>ali_usize\<close> as
  \<^verbatim>\<open>ali_u64\<close>), so \<^verbatim>\<open>count + size\<close> wraps as in the code.

  An arena owns a chain of regions linked through \<^verbatim>\<open>next\<close>. The chain is the list
  \<open>regions\<close>: \<^verbatim>\<open>start\<close> is \<^verbatim>\<open>NULL\<close> exactly when the list is empty, region \<open>k + 1\<close> is
  the \<^verbatim>\<open>next\<close> of region \<open>k\<close>, and the last region's \<^verbatim>\<open>next\<close> is \<^verbatim>\<open>NULL\<close>. A
  pointer to a region (\<^verbatim>\<open>end\<close>, the \<^verbatim>\<open>r\<close> of a mark) is its index in the chain,
  \<open>None\<close> for \<^verbatim>\<open>NULL\<close>; a pointer into a region's \<^verbatim>\<open>data\<close> is the pair of the region's
  index and the byte offset. \<^verbatim>\<open>malloc\<close> is taken never to fail. Dereferencing
  \<^verbatim>\<open>NULL\<close> or a region that is not in the chain is the fault \<open>Null_dereference\<close>;
  \<open>Out_of_bounds\<close> is a read outside the object a pointer points into.
\<close>

type_synonym size_t = "64 word"

datatype ali_fault = Null_dereference | Out_of_bounds

record AliRegion =
  r_count :: size_t
  r_capacity :: size_t

record AliArena =
  regions :: "AliRegion list"
  a_end :: "nat option"

record AliArenaMark =
  m_r :: "nat option"
  m_count :: size_t

text \<open>\<^verbatim>\<open>#define ALI_REGION_DEFAULT_CAP (4 << 10)\<close>\<close>

definition ALI_REGION_DEFAULT_CAP :: size_t where
  "ALI_REGION_DEFAULT_CAP = push_bit 10 4"

definition ali_region_new :: "size_t \<Rightarrow> AliRegion" where
  "ali_region_new capacity = \<lparr>r_count = 0, r_capacity = capacity\<rparr>"

definition ali_region_alloc :: "AliRegion \<Rightarrow> size_t \<Rightarrow> size_t option \<times> AliRegion" where
  "ali_region_alloc self sz =
     (if r_count self + sz \<ge> r_capacity self then (None, self)
      else (Some (r_count self), self\<lparr>r_count := r_count self + sz\<rparr>))"

text \<open>
  The \<^verbatim>\<open>do ... while (ptr == NULL)\<close> loop of \<^verbatim>\<open>ali_arena_alloc\<close>, from the region
  with index \<open>region\<close>. It returns the pointer, the chain and the region that satisfied
  the request. The loop has no exit but success: \<open>None\<close> is the run that never ends.
\<close>

partial_function (option) arena_alloc_loop ::
  "AliRegion list \<Rightarrow> nat \<Rightarrow> size_t \<Rightarrow> (ali_fault + (nat \<times> size_t) \<times> AliRegion list \<times> nat) option"
where
  "arena_alloc_loop rs region sz =
     (if region < length rs then
        (case ali_region_alloc (rs ! region) sz of
           (Some ptr, r') \<Rightarrow> Some (Inr ((region, ptr), rs[region := r'], region))
         | (None, r') \<Rightarrow>
             arena_alloc_loop
               (if Suc region < length rs then rs else rs @ [ali_region_new ALI_REGION_DEFAULT_CAP])
               (Suc region) sz)
      else Some (Inl Null_dereference))"

definition ali_arena_alloc ::
  "AliArena \<Rightarrow> size_t \<Rightarrow> (ali_fault + (nat \<times> size_t) \<times> AliArena) option" where
  "ali_arena_alloc self sz =
     (let self1 = (if regions self = []
                   then \<lparr>regions = [ali_region_new ALI_REGION_DEFAULT_CAP], a_end = Some 0\<rparr>
                   else self)
      in case a_end self1 of
           None \<Rightarrow> Some (Inl Null_dereference)
         | Some region \<Rightarrow>
             map_option
               (\<lambda>res. case res of
                    Inl e \<Rightarrow> Inl e
                  | Inr (ptr, rs, region') \<Rightarrow> Inr (ptr, \<lparr>regions = rs, a_end = Some region'\<rparr>))
               (arena_alloc_loop (regions self1) region sz))"

text \<open>\<^verbatim>\<open>ali_arena_reset\<close>, \<^verbatim>\<open>ali_arena_mark\<close> and \<^verbatim>\<open>ali_arena_rollback\<close>. In the
  rollback, \<open>rs1\<close> is the chain after \<^verbatim>\<open>mark.r->count = mark.count\<close> and \<open>rs2\<close> the chain
  after the loop \<^verbatim>\<open>for (AliRegion* r = mark.r; r != NULL; r = r->next) r->count = 0\<close>.
\<close>

definition ali_arena_reset :: "AliArena \<Rightarrow> AliArena" where
  "ali_arena_reset self =
     \<lparr>regions = map (\<lambda>r. r\<lparr>r_count := 0\<rparr>) (regions self),
      a_end = (if regions self = [] then None else Some 0)\<rparr>"

definition ali_arena_mark :: "AliArena \<Rightarrow> ali_fault + AliArenaMark" where
  "ali_arena_mark self =
     (case a_end self of
        None \<Rightarrow> Inl Null_dereference
      | Some e \<Rightarrow>
          if e < length (regions self)
          then Inr \<lparr>m_r = Some e, m_count = r_count (regions self ! e)\<rparr>
          else Inl Null_dereference)"

definition ali_arena_rollback :: "AliArena \<Rightarrow> AliArenaMark \<Rightarrow> ali_fault + AliArena" where
  "ali_arena_rollback self mark =
     (case m_r mark of
        None \<Rightarrow> Inr (ali_arena_reset self)
      | Some i \<Rightarrow>
          if i < length (regions self) then
            (let rs1 = (regions self)[i := (regions self ! i)\<lparr>r_count := m_count mark\<rparr>];
                 rs2 = take i rs1 @ map (\<lambda>r. r\<lparr>r_count := 0\<rparr>) (drop i rs1)
             in Inr \<lparr>regions = rs2, a_end = Some i\<rparr>)
          else Inl Null_dereference)"



text \<open>The zero-initialised arena, and the invariant of the arenas that
  \<^verbatim>\<open>ali_arena_alloc\<close> builds from it: every region has the default capacity and an
  offset below it, and \<^verbatim>\<open>end\<close> points into the chain.\<close>

definition arena_empty :: AliArena where
  "arena_empty = \<lparr>regions = [], a_end = None\<rparr>"

definition region_ok :: "AliRegion \<Rightarrow> bool" where
  "region_ok r = (r_capacity r = ALI_REGION_DEFAULT_CAP \<and> r_count r < ALI_REGION_DEFAULT_CAP)"

definition arena_inv :: "AliArena \<Rightarrow> bool" where
  "arena_inv a =
     (list_all region_ok (regions a)
      \<and> (case a_end a of None \<Rightarrow> regions a = [] | Some e \<Rightarrow> e < length (regions a)))"

text \<open>A block of \<open>sz\<close> bytes at \<open>ptr\<close> lies inside the region \<open>ptr\<close> points into.\<close>

definition block_in_region :: "AliArena \<Rightarrow> nat \<times> size_t \<Rightarrow> size_t \<Rightarrow> bool" where
  "block_in_region a ptr sz =
     (fst ptr < length (regions a)
      \<and> unat (snd ptr) + unat sz \<le> unat (r_capacity (regions a ! fst ptr)))"


section \<open>ali.h: string view (module ali\_sv)\<close>

text \<open>
  A view is a pointer and a length. The text it points into is the byte list \<open>mem\<close> (for
  a C string, the characters followed by the terminating zero); the pointer is an index
  into \<open>mem\<close>, or \<open>None\<close> for \<^verbatim>\<open>NULL\<close>. Reading through \<^verbatim>\<open>NULL\<close> or behind the end
  of \<open>mem\<close> is a fault.
\<close>

record AliSv =
  sv_start :: "nat option"
  sv_len :: nat

definition read_char :: "string \<Rightarrow> nat option \<Rightarrow> ali_fault + char" where
  "read_char mem p =
     (case p of
        None \<Rightarrow> Inl Null_dereference
      | Some a \<Rightarrow> if a < length mem then Inr (mem ! a) else Inl Out_of_bounds)"

text \<open>\<^verbatim>\<open>ali_sv_from_cstr\<close> for the C string that starts at index \<open>a\<close> of \<open>mem\<close>.\<close>

definition strlen :: "string \<Rightarrow> nat \<Rightarrow> nat" where
  "strlen mem a = length (takeWhile (\<lambda>ch. ch \<noteq> CHR 0x00) (drop a mem))"

definition ali_sv_from_cstr :: "string \<Rightarrow> nat \<Rightarrow> AliSv" where
  "ali_sv_from_cstr mem a = \<lparr>sv_start = Some a, sv_len = strlen mem a\<rparr>"

definition ali_sv_step :: "AliSv \<Rightarrow> AliSv" where
  "ali_sv_step self =
     (if sv_start self = None \<or> sv_len self = 0 then self
      else self\<lparr>sv_start := map_option (\<lambda>a. a + 1) (sv_start self), sv_len := sv_len self - 1\<rparr>)"

text \<open>
  The loop of \<^verbatim>\<open>ali_sv_chop_by_c\<close>:
  \<^verbatim>\<open>while (*self->start != c) { ali_sv_step(self); if (self->len == 0) break; }\<close>
\<close>

function chop_by_c_loop :: "string \<Rightarrow> char \<Rightarrow> AliSv \<Rightarrow> ali_fault + AliSv" where
  "chop_by_c_loop mem c self =
     (case read_char mem (sv_start self) of
        Inl e \<Rightarrow> Inl e
      | Inr ch \<Rightarrow>
          if ch \<noteq> c then
            (let self' = ali_sv_step self
             in if sv_len self' = 0 then Inr self' else chop_by_c_loop mem c self')
          else Inr self)"
  by pat_completeness auto
termination
  by (relation "measure (\<lambda>(mem, c, self). sv_len self)")
     (auto simp: ali_sv_step_def read_char_def split: if_splits)

declare chop_by_c_loop.simps [simp del]

text \<open>
  \<^verbatim>\<open>ali_sv_chop_by_c(&self, c)\<close>: the returned view and the view \<^verbatim>\<open>self\<close> is left as.
  The returned length is the pointer difference \<^verbatim>\<open>self->start - chopped.start\<close>, taken
  after the final \<^verbatim>\<open>ali_sv_step\<close>.
\<close>

definition ptr_diff :: "nat option \<Rightarrow> nat option \<Rightarrow> nat" where
  "ptr_diff p q = (case (p, q) of (Some a, Some b) \<Rightarrow> a - b | _ \<Rightarrow> 0)"

definition ali_sv_chop_by_c :: "string \<Rightarrow> AliSv \<Rightarrow> char \<Rightarrow> ali_fault + (AliSv \<times> AliSv)" where
  "ali_sv_chop_by_c mem self c =
     (case chop_by_c_loop mem c self of
        Inl e \<Rightarrow> Inl e
      | Inr self1 \<Rightarrow>
          (let self2 = ali_sv_step self1;
               chopped = \<lparr>sv_start = sv_start self,
                          sv_len = ptr_diff (sv_start self2) (sv_start self)\<rparr>
           in Inr (chopped, self2)))"

text \<open>The characters a view designates, when it lies inside \<open>mem\<close>.\<close>

definition sv_chars :: "string \<Rightarrow> AliSv \<Rightarrow> string" where
  "sv_chars mem sv = (case sv_start sv of None \<Rightarrow> [] | Some a \<Rightarrow> take (sv_len sv) (drop a mem))"

definition sv_valid :: "string \<Rightarrow> AliSv \<Rightarrow> bool" where
  "sv_valid mem sv = (case sv_start sv of None \<Rightarrow> False | Some a \<Rightarrow> a + sv_len sv \<le> length mem)"

text \<open>The C string \<^verbatim>\<open>"a,b,c"\<close>.\<close>

definition abc_mem :: string where
  "abc_mem = ''a,b,c'' @ [CHR 0x00]"


section \<open>C library functions used by json.h\<close>

text \<open>
  The classification functions of \<^verbatim>\<open><ctype.h>\<close> in the C locale.
\<close>

definition isspace :: "char \<Rightarrow> bool" where
  "isspace c = (c \<in> set [CHR '' '', CHR 0x09, CHR 0x0A, CHR 0x0B, CHR 0x0C, CHR 0x0D])"

definition isdigit :: "char \<Rightarrow> bool" where
  "isdigit c = (let n = (of_char c :: nat) in 48 \<le> n \<and> n \<le> 57)"

definition isalpha :: "char \<Rightarrow> bool" where
  "isalpha c = (let n = (of_char c :: nat) in (65 \<le> n \<and> n \<le> 90) \<or> (97 \<le> n \<and> n \<le> 122))"

definition digit_val :: "char \<Rightarrow> nat" where
  "digit_val c = of_char c - 48"

text \<open>
  A C string is read up to its terminating zero. \<open>cstr\<close> is the text of the C string held
  in a byte list, \<^verbatim>\<open>strcmp(a, b) == 0\<close> compares two such texts, and
  \<^verbatim>\<open>strncmp(a, b, n) == 0\<close> compares at most \<open>n\<close> characters of the texts with their
  terminators.
\<close>

definition cstr :: "string \<Rightarrow> string" where
  "cstr s = takeWhile (\<lambda>c. c \<noteq> CHR 0x00) s"

definition strcmp_eq :: "string \<Rightarrow> string \<Rightarrow> bool" where
  "strcmp_eq a b = (cstr a = cstr b)"

definition strncmp_eq :: "string \<Rightarrow> string \<Rightarrow> nat \<Rightarrow> bool" where
  "strncmp_eq a b n = (take n (cstr a @ [CHR 0x00]) = take n (cstr b @ [CHR 0x00]))"

text \<open>
  \<^verbatim>\<open>strtod\<close>, for the texts \<^verbatim>\<open>json_lexer_parse_value\<close> hands to it, which start with a
  digit or a dot: decimal digits, an optional fraction, an optional decimal exponent. The
  result is the exact value of the literal and the number of characters consumed (0 and
  no character when the text has no digit); a \<^verbatim>\<open>double\<close> holds this value exactly for the
  small integers of the statements below, and the rounding of other literals is not
  modelled, nor are hexadecimal literals. The text is read from a byte list: \<open>None\<close> is a
  read behind its end.
\<close>

fun scan_digits :: "nat \<Rightarrow> nat \<Rightarrow> string \<Rightarrow> (nat \<times> nat \<times> string) option" where
  "scan_digits acc n [] = None"
| "scan_digits acc n (c # cs) =
     (if isdigit c then scan_digits (acc * 10 + digit_val c) (n + 1) cs
      else Some (acc, n, c # cs))"

definition scan_exponent :: "string \<Rightarrow> (int \<times> nat) option" where
  "scan_exponent s =
     (case s of
        [] \<Rightarrow> None
      | c # cs \<Rightarrow>
          if c = CHR ''e'' \<or> c = CHR ''E'' then
            (case cs of
               [] \<Rightarrow> None
             | d # ds \<Rightarrow>
                 if d = CHR ''+'' \<or> d = CHR ''-'' then
                   (case scan_digits 0 0 ds of
                      None \<Rightarrow> None
                    | Some (e, k, _) \<Rightarrow>
                        if k = 0 then Some (0, 0)
                        else Some (if d = CHR ''-'' then - int e else int e, k + 2))
                 else
                   (case scan_digits 0 0 (d # ds) of
                      None \<Rightarrow> None
                    | Some (e, k, _) \<Rightarrow> if k = 0 then Some (0, 0) else Some (int e, k + 1)))
          else Some (0, 0))"

definition strtod :: "string \<Rightarrow> (rat \<times> nat) option" where
  "strtod s =
     (case scan_digits 0 0 s of
        None \<Rightarrow> None
      | Some (ip, n1, r1) \<Rightarrow>
          (case (if hd r1 = CHR ''.'' then
                   map_option (\<lambda>(fp, n2, r2). (fp, n2, r2, 1 + n2)) (scan_digits 0 0 (tl r1))
                 else Some (0, 0, r1, 0)) of
             None \<Rightarrow> None
           | Some (fp, n2, r2, used) \<Rightarrow>
               if n1 + n2 = 0 then Some (0, 0)
               else
                 (case scan_exponent r2 of
                    None \<Rightarrow> None
                  | Some (e, n3) \<Rightarrow>
                      Some ((of_nat ip + of_nat fp / 10 ^ n2) * (if e < 0 then 1 / 10 ^ nat (- e) else 10 ^ nat e),
                            n1 + used + n3))))"

text \<open>
  \<^verbatim>\<open>printf("%.2lf", x)\<close>: the value rounded to two decimals (ties to even), as sign,
  integer digits, a dot and two digits.
\<close>

definition digit_char :: "nat \<Rightarrow> char" where
  "digit_char n = ''0123456789'' ! (n mod 10)"

fun show_nat :: "nat \<Rightarrow> string" where
  "show_nat n =
     (if n < 10 then [digit_char n]
      else show_nat (n div 10) @ [digit_char (n mod 10)])"

declare show_nat.simps [simp del]

definition round_half_even :: "rat \<Rightarrow> int" where
  "round_half_even x =
     (let f = \<lfloor>x\<rfloor>; d = x - of_int f
      in if d < 1 / 2 then f
         else if d > 1 / 2 then f + 1
         else if even f then f else f + 1)"

definition printf_2lf :: "rat \<Rightarrow> string" where
  "printf_2lf x =
     (let n = nat (round_half_even (\<bar>x\<bar> * 100))
      in (if x < 0 then ''-'' else [])
         @ show_nat (n div 100) @ ''.''
         @ [digit_char ((n mod 100) div 10), digit_char (n mod 10)])"


section \<open>json.h: values\<close>

text \<open>
  A \<^verbatim>\<open>JsonValue\<close> is a tag and a union. \<open>JsonValueAs\<close> is the union with the member that
  was stored last, so that a value whose tag and stored member disagree can be written
  down. An array is its \<^verbatim>\<open>len\<close> field and the chain of nodes as the list of their
  values; an object is its \<^verbatim>\<open>len\<close> field and the chain of items. A \<^verbatim>\<open>char*\<close> member is
  the byte string it points to. A number is the exact value \<^verbatim>\<open>strtod\<close> read.
\<close>

datatype JsonValueType = JSON_NUMBER | JSON_BOOLEAN | JSON_STRING | JSON_ARRAY | JSON_OBJECT

datatype 'v JsonArray = JsonArray (a_len: nat) (a_nodes: "'v list")

datatype 'v JsonObjectItem = JsonObjectItem (i_key: string) (i_value: 'v)

datatype 'v JsonObject = JsonObject (o_len: nat) (o_items: "'v JsonObjectItem list")

datatype JsonValueAs =
    As_number rat
  | As_boolean bool
  | As_string string
  | As_object "JsonValue JsonObject"
  | As_array "JsonValue JsonArray"
and JsonValue = JsonValue (v_type: JsonValueType) (v_as: JsonValueAs)

text \<open>
  The outcomes of the JSON functions that are not a value. \<open>Unexpected_EOF\<close> and
  \<open>Unexpected_char\<close> are the two diagnostics \<^verbatim>\<open>json_lexer_expect_char\<close> and
  \<^verbatim>\<open>json_lexer_parse_value\<close> print before they return \<^verbatim>\<open>false\<close> (with the character
  they print). The others are not return values: a read outside the text's storage, a
  write behind the end of \<^verbatim>\<open>json_arena\<close>, a read of a union member other than the one
  stored or through a null pointer (none has a defined result here), and the exhaustion of
  the recursion budget of the model.
\<close>

datatype json_error =
    Unexpected_EOF
  | Unexpected_char char
  | Read_out_of_bounds
  | Arena_overflow
  | Invalid_read
  | Out_of_fuel

fun returned_false :: "json_error \<Rightarrow> bool" where
  "returned_false Unexpected_EOF = True"
| "returned_false (Unexpected_char c) = True"
| "returned_false e = False"

text \<open>Sequencing: the first outcome that is not a value ends the computation.\<close>

fun bind_res :: "json_error + 'a \<Rightarrow> ('a \<Rightarrow> json_error + 'b) \<Rightarrow> json_error + 'b" where
  "bind_res (Inl e) f = Inl e"
| "bind_res (Inr x) f = f x"

subsection \<open>The arena\<close>

text \<open>
  \<^verbatim>\<open>json_arena\<close> is an array of \<^verbatim>\<open>JSON_ARENA_MAX_SIZE\<close> bytes and \<^verbatim>\<open>json_arena_size\<close> the
  offset of the next allocation (the argument \<open>arena\<close> of the functions below). \<^verbatim>\<open>json_alloc\<close> returns the current offset and advances
  it without a check; the write of \<open>n\<close> bytes at offset \<open>ptr\<close> is inside the array when
  \<open>arena_write ptr n\<close> is a value. The sizes of the list nodes are those of the LP64 layout.
\<close>

definition JSON_ARENA_MAX_SIZE :: nat where
  "JSON_ARENA_MAX_SIZE = 2 ^ 20"

definition json_arena_stamp :: "nat \<Rightarrow> nat" where
  "json_arena_stamp arena = arena"

definition json_arena_rewind :: "nat \<Rightarrow> nat" where
  "json_arena_rewind stamp = stamp"

definition json_alloc :: "nat \<Rightarrow> nat \<Rightarrow> nat \<times> nat" where
  "json_alloc arena sz = (arena, (arena + sz) mod 2 ^ 64)"

definition arena_write :: "nat \<Rightarrow> nat \<Rightarrow> json_error + unit" where
  "arena_write ptr n = (if ptr + n \<le> JSON_ARENA_MAX_SIZE then Inr () else Inl Arena_overflow)"

definition sizeof_JsonArrayNode :: nat where
  "sizeof_JsonArrayNode = 32"

definition sizeof_JsonObjectItem :: nat where
  "sizeof_JsonObjectItem = 40"

text \<open>
  \<^verbatim>\<open>json_strndup(str, len)\<close>: \<open>len + 1\<close> bytes are allocated, \<open>len\<close> bytes are copied from
  address \<open>str\<close> of the text's storage \<open>mem\<close>, and a zero is stored behind them. The result
  is the copy and the new arena offset.
\<close>

definition json_strndup :: "string \<Rightarrow> nat \<Rightarrow> nat \<Rightarrow> nat \<Rightarrow> json_error + (string \<times> nat)" where
  "json_strndup mem arena str len =
     (let (copy, arena') = json_alloc arena ((len + 1) mod 2 ^ 64)
      in if str + len \<le> length mem
         then bind_res (arena_write copy (len + 1)) (\<lambda>_. Inr (take len (drop str mem), arena'))
         else Inl Read_out_of_bounds)"

text \<open>
  \<^verbatim>\<open>json_array_append\<close> and \<^verbatim>\<open>json_object_append\<close>: the length is incremented and a
  new node, allocated from the arena, is linked behind the last one.
\<close>

definition json_array_append ::
  "nat \<Rightarrow> JsonValue JsonArray \<Rightarrow> JsonValue \<Rightarrow> json_error + (JsonValue JsonArray \<times> nat)" where
  "json_array_append arena array v =
     (let (node, arena') = json_alloc arena sizeof_JsonArrayNode
      in bind_res (arena_write node sizeof_JsonArrayNode)
           (\<lambda>_. Inr (JsonArray (a_len array + 1) (a_nodes array @ [v]), arena')))"

definition json_object_append ::
  "nat \<Rightarrow> JsonValue JsonObject \<Rightarrow> string \<Rightarrow> JsonValue \<Rightarrow> json_error + (JsonValue JsonObject \<times> nat)" where
  "json_object_append arena object k v =
     (let (item, arena') = json_alloc arena sizeof_JsonObjectItem
      in bind_res (arena_write item sizeof_JsonObjectItem)
           (\<lambda>_. Inr (JsonObject (o_len object + 1) (o_items object @ [JsonObjectItem k v]), arena')))"

subsection \<open>Lookup\<close>

text \<open>
  The result of \<^verbatim>\<open>json_array_get_item\<close> and \<^verbatim>\<open>json_object_get_item\<close> is an address:
  the null pointer, the address of the value of a node, or the null pointer advanced by a
  positive number of bytes. Both functions end with \<^verbatim>\<open>return &cur->value\<close>; when the
  walk has left the chain \<^verbatim>\<open>cur\<close> is \<^verbatim>\<open>NULL\<close> and the address formed is \<^verbatim>\<open>NULL\<close> plus
  the offset of the member \<^verbatim>\<open>value\<close> in the node. In \<^verbatim>\<open>JsonArrayNode\<close> the member
  \<^verbatim>\<open>value\<close> comes first (offset 0); in \<^verbatim>\<open>JsonObjectItem\<close> it follows the pointer
  \<^verbatim>\<open>key\<close> (offset 8 in the LP64 layout).
\<close>

datatype 'a item_ptr = Null_ptr | Ptr 'a | Null_plus nat

definition offsetof_JsonArrayNode_value :: nat where
  "offsetof_JsonArrayNode_value = 0"

definition offsetof_JsonObjectItem_value :: nat where
  "offsetof_JsonObjectItem_value = 8"

definition member_of_null :: "nat \<Rightarrow> 'a item_ptr" where
  "member_of_null off = (if off = 0 then Null_ptr else Null_plus off)"

text \<open>The loop \<^verbatim>\<open>while (cur != NULL && index > 0) { cur = cur->next; index--; }\<close> and
  the \<^verbatim>\<open>return &cur->value\<close> behind it, on the chain from \<^verbatim>\<open>cur\<close>, for a node type
  with \<^verbatim>\<open>value\<close> at offset \<open>off\<close>.\<close>

fun walk_nodes :: "nat \<Rightarrow> 'a list \<Rightarrow> nat \<Rightarrow> 'a item_ptr" where
  "walk_nodes off [] index = member_of_null off"
| "walk_nodes off (x # cur) 0 = Ptr x"
| "walk_nodes off (x # cur) (Suc index) = walk_nodes off cur index"

definition json_object_get_item :: "JsonValue JsonObject \<Rightarrow> nat \<Rightarrow> JsonValue item_ptr" where
  "json_object_get_item object index =
     (if index > o_len object then Null_ptr
      else walk_nodes offsetof_JsonObjectItem_value (map i_value (o_items object)) index)"

definition json_array_get_item :: "JsonValue JsonArray \<Rightarrow> nat \<Rightarrow> JsonValue item_ptr" where
  "json_array_get_item array index =
     (if index > a_len array then Null_ptr
      else walk_nodes offsetof_JsonArrayNode_value (a_nodes array) index)"

text \<open>
  \<^verbatim>\<open>json_object_find_value\<close>: \<^verbatim>\<open>NULL\<close> for an object of length 0, else the value of the
  first item whose key compares equal.
\<close>

fun find_item :: "JsonValue JsonObjectItem list \<Rightarrow> string \<Rightarrow> JsonValue option" where
  "find_item [] k = None"
| "find_item (item # items) k =
     (if strcmp_eq (i_key item) k then Some (i_value item) else find_item items k)"

definition json_object_find_value :: "JsonValue JsonObject \<Rightarrow> string \<Rightarrow> JsonValue option" where
  "json_object_find_value object k =
     (if o_len object = 0 then None else find_item (o_items object) k)"

text \<open>
  The typed accessors return \<^verbatim>\<open>NULL\<close> on a tag mismatch and otherwise the address of
  the union member. The address is the union itself here; reading the member through it
  (\<open>read_number\<close> and the like) has a value when that member is the one stored.
\<close>

definition json_value_as_number :: "JsonValue \<Rightarrow> JsonValueAs option" where
  "json_value_as_number v = (if v_type v \<noteq> JSON_NUMBER then None else Some (v_as v))"

definition json_value_as_string :: "JsonValue \<Rightarrow> JsonValueAs option" where
  "json_value_as_string v = (if v_type v \<noteq> JSON_STRING then None else Some (v_as v))"

definition json_value_as_boolean :: "JsonValue \<Rightarrow> JsonValueAs option" where
  "json_value_as_boolean v = (if v_type v \<noteq> JSON_BOOLEAN then None else Some (v_as v))"

definition json_value_as_array :: "JsonValue \<Rightarrow> JsonValueAs option" where
  "json_value_as_array v = (if v_type v \<noteq> JSON_ARRAY then None else Some (v_as v))"

definition json_value_as_object :: "JsonValue \<Rightarrow> JsonValueAs option" where
  "json_value_as_object v = (if v_type v \<noteq> JSON_OBJECT then None else Some (v_as v))"

fun read_number :: "JsonValueAs \<Rightarrow> json_error + rat" where
  "read_number (As_number x) = Inr x"
| "read_number u = Inl Invalid_read"

fun read_boolean :: "JsonValueAs \<Rightarrow> json_error + bool" where
  "read_boolean (As_boolean b) = Inr b"
| "read_boolean u = Inl Invalid_read"

fun read_string :: "JsonValueAs \<Rightarrow> json_error + string" where
  "read_string (As_string s) = Inr s"
| "read_string u = Inl Invalid_read"

fun read_array :: "JsonValueAs \<Rightarrow> json_error + JsonValue JsonArray" where
  "read_array (As_array a) = Inr a"
| "read_array u = Inl Invalid_read"

fun read_object :: "JsonValueAs \<Rightarrow> json_error + JsonValue JsonObject" where
  "read_object (As_object ob) = Inr ob"
| "read_object u = Inl Invalid_read"


subsection \<open>Serializer\<close>

text \<open>
  \<^verbatim>\<open>json_stringify\<close> prints to the standard output; the result is the text printed. A
  string is printed with \<^verbatim>\<open>%s\<close>, up to its first zero byte. The two loops over the
  chains print \<^verbatim>\<open>", "\<close> between elements. The last equation is a value whose tag names
  another member than the one stored.
\<close>

function (sequential) json_stringify :: "JsonValue \<Rightarrow> json_error + string"
  and stringify_nodes :: "JsonValue list \<Rightarrow> json_error + string"
  and stringify_items :: "JsonValue JsonObjectItem list \<Rightarrow> json_error + string"
where
  "json_stringify (JsonValue JSON_NUMBER (As_number x)) = Inr (printf_2lf x)"
| "json_stringify (JsonValue JSON_STRING (As_string s)) = Inr ([CHR 0x22] @ cstr s @ [CHR 0x22])"
| "json_stringify (JsonValue JSON_BOOLEAN (As_boolean b)) = Inr (if b then ''true'' else ''false'')"
| "json_stringify (JsonValue JSON_ARRAY (As_array (JsonArray n nodes))) =
     bind_res (stringify_nodes nodes) (\<lambda>s. Inr (''['' @ s @ '']''))"
| "json_stringify (JsonValue JSON_OBJECT (As_object (JsonObject n items))) =
     bind_res (stringify_items items) (\<lambda>s. Inr (''{'' @ s @ ''}''))"
| "json_stringify (JsonValue t u) = Inl Invalid_read"
| "stringify_nodes [] = Inr []"
| "stringify_nodes (v # cur) =
     bind_res (json_stringify v) (\<lambda>s.
     bind_res (stringify_nodes cur) (\<lambda>r.
       Inr (s @ (if cur = [] then [] else '', '') @ r)))"
| "stringify_items [] = Inr []"
| "stringify_items (JsonObjectItem k v # cur) =
     bind_res (json_stringify v) (\<lambda>s.
     bind_res (stringify_items cur) (\<lambda>r.
       Inr ([CHR 0x22] @ cstr k @ [CHR 0x22] @ '': '' @ s @ (if cur = [] then [] else '', '') @ r)))"
  by pat_completeness auto
termination
  by (relation "measure (\<lambda>x. case x of
                    Inl v \<Rightarrow> size v
                  | Inr (Inl vs) \<Rightarrow> size_list size vs
                  | Inr (Inr items) \<Rightarrow> size_list (size_JsonObjectItem size) items)")
     auto

subsection \<open>Lexer\<close>

text \<open>
  The text the lexer reads lives in the byte list \<open>mem\<close>; \<^verbatim>\<open>content_start\<close> and
  \<^verbatim>\<open>cursor\<close> are addresses in it. For a string literal \<open>mem\<close> is its characters and the
  terminating zero. \<open>peek\<close> is the read \<^verbatim>\<open>*lexer->cursor\<close>.
\<close>

record JsonLexer =
  content_start :: nat
  content_len :: nat
  cursor :: nat

definition json_lexer :: "nat \<Rightarrow> nat \<Rightarrow> JsonLexer" where
  "json_lexer start content_size =
     \<lparr>content_start = start, content_len = content_size, cursor = start\<rparr>"

definition json_is_empty :: "JsonLexer \<Rightarrow> bool" where
  "json_is_empty lx = (content_start lx \<ge> content_start lx + content_len lx)"

definition peek :: "string \<Rightarrow> JsonLexer \<Rightarrow> json_error + char" where
  "peek mem lx = (if cursor lx < length mem then Inr (mem ! cursor lx) else Inl Read_out_of_bounds)"

text \<open>
  The scanning loops \<^verbatim>\<open>while (!json_is_empty(lexer) && p(*lexer->cursor)) lexer->cursor++\<close>,
  for the three conditions \<open>p\<close> of the source: a space, not a double quote, not alphabetic.
\<close>

function lexer_skip_while :: "string \<Rightarrow> (char \<Rightarrow> bool) \<Rightarrow> JsonLexer \<Rightarrow> json_error + JsonLexer" where
  "lexer_skip_while mem p lx =
     (if json_is_empty lx then Inr lx
      else case peek mem lx of
             Inl e \<Rightarrow> Inl e
           | Inr c \<Rightarrow> if p c then lexer_skip_while mem p (lx\<lparr>cursor := cursor lx + 1\<rparr>) else Inr lx)"
  by pat_completeness auto
termination
  by (relation "measure (\<lambda>(mem, p, lx). length mem - cursor lx)")
     (auto simp: peek_def split: if_splits)

declare lexer_skip_while.simps [simp del]

definition json_lexer_trim_left :: "string \<Rightarrow> JsonLexer \<Rightarrow> json_error + JsonLexer" where
  "json_lexer_trim_left mem lx =
     (if json_is_empty lx then Inr lx else lexer_skip_while mem isspace lx)"

definition json_lexer_expect_char :: "string \<Rightarrow> JsonLexer \<Rightarrow> char \<Rightarrow> json_error + JsonLexer" where
  "json_lexer_expect_char mem lx c =
     (if json_is_empty lx then Inl Unexpected_EOF
      else bind_res (peek mem lx) (\<lambda>ch.
             if ch = c then Inr (lx\<lparr>cursor := cursor lx + 1\<rparr>) else Inl (Unexpected_char c)))"

text \<open>
  The conversions around \<^verbatim>\<open>json_strndup(start, (int)(lexer->cursor - start))\<close>: the pointer
  difference is cut to a 32-bit \<^verbatim>\<open>int\<close> and converted to \<^verbatim>\<open>size_t\<close> for the parameter.
\<close>

definition int_of_ptrdiff :: "nat \<Rightarrow> int" where
  "int_of_ptrdiff d = (let m = d mod 2 ^ 32 in if m < 2 ^ 31 then int m else int m - 2 ^ 32)"

definition size_t_of_int :: "int \<Rightarrow> nat" where
  "size_t_of_int i = nat (i mod 2 ^ 64)"

subsection \<open>Parser\<close>

text \<open>The lexer together with the global \<^verbatim>\<open>json_arena_size\<close>.\<close>

record json_state =
  lexer :: JsonLexer
  json_arena_size :: nat

text \<open>
  The branches of \<^verbatim>\<open>json_lexer_parse_value\<close> that do not recurse, entered after
  \<^verbatim>\<open>json_lexer_trim_left\<close> with the cursor on the character that selects them.
  \<^item> Number: \<^verbatim>\<open>strtod\<close> from the cursor; the cursor moves to where it stopped.
  \<^item> String: the cursor steps over the quote and scans to the next quote; the span is
    copied; the closing quote is expected.
  \<^item> The branch for \<^verbatim>\<open>f\<close> and \<^verbatim>\<open>t\<close>: the scan runs while the character is
    \<^emph>\<open>not\<close> alphabetic; the span is copied and compared with \<^verbatim>\<open>"true"\<close> over the span's
    length; the tag, first set to \<^verbatim>\<open>JSON_BOOLEAN\<close>, is set to \<^verbatim>\<open>JSON_STRING\<close> before
    the boolean member is stored; the arena is rewound.
\<close>

definition parse_number :: "string \<Rightarrow> json_state \<Rightarrow> json_error + (JsonValue \<times> json_state)" where
  "parse_number mem st =
     (case strtod (drop (cursor (lexer st)) mem) of
        None \<Rightarrow> Inl Read_out_of_bounds
      | Some (x, n) \<Rightarrow>
          Inr (JsonValue JSON_NUMBER (As_number x),
               st\<lparr>lexer := (lexer st)\<lparr>cursor := cursor (lexer st) + n\<rparr>\<rparr>))"

definition parse_string :: "string \<Rightarrow> json_state \<Rightarrow> json_error + (JsonValue \<times> json_state)" where
  "parse_string mem st =
     (let lx0 = (lexer st)\<lparr>cursor := cursor (lexer st) + 1\<rparr>;
          start = cursor lx0
      in bind_res (lexer_skip_while mem (\<lambda>c. c \<noteq> CHR 0x22) lx0) (\<lambda>lx1.
         bind_res (json_strndup mem (json_arena_size st) start
                     (size_t_of_int (int_of_ptrdiff (cursor lx1 - start)))) (\<lambda>(s, arena').
         bind_res (json_lexer_expect_char mem lx1 (CHR 0x22)) (\<lambda>lx2.
           Inr (JsonValue JSON_STRING (As_string s),
                \<lparr>lexer = lx2, json_arena_size = arena'\<rparr>)))))"

definition parse_boolean :: "string \<Rightarrow> json_state \<Rightarrow> json_error + (JsonValue \<times> json_state)" where
  "parse_boolean mem st =
     (let stamp = json_arena_stamp (json_arena_size st);
          start = cursor (lexer st)
      in bind_res (lexer_skip_while mem (\<lambda>c. \<not> isalpha c) (lexer st)) (\<lambda>lx1.
         bind_res (json_strndup mem (json_arena_size st) start
                     (size_t_of_int (int_of_ptrdiff (cursor lx1 - start)))) (\<lambda>(value1, arena').
           Inr (JsonValue JSON_STRING
                  (As_boolean (strncmp_eq value1 ''true'' (cursor lx1 - start))),
                \<lparr>lexer = lx1, json_arena_size = json_arena_rewind stamp\<rparr>))))"

text \<open>
  The object branch calls \<^verbatim>\<open>json_lexer_expect_char(lexer, '{')\<close> and ignores what it
  returns.
\<close>

definition ignore_false :: "JsonLexer \<Rightarrow> json_error + JsonLexer \<Rightarrow> json_error + JsonLexer" where
  "ignore_false lx r =
     (case r of Inr lx' \<Rightarrow> Inr lx' | Inl e \<Rightarrow> if returned_false e then Inr lx else Inl e)"

text \<open>
  \<^verbatim>\<open>json_lexer_parse_value\<close> and \<^verbatim>\<open>json_lexer_parse_object_item\<close> call each other, and
  the two \<^verbatim>\<open>while (!json_is_empty(lexer))\<close> loops of the object and array branches call
  them. The four are defined with a recursion budget that every call decrements;
  \<open>Out_of_fuel\<close> is the exhausted budget. The functions under the source's names, below,
  give them a budget that is never exhausted (see \<open>parse_value_fuel_enough\<close>).
\<close>

fun parse_value_fuel :: "nat \<Rightarrow> string \<Rightarrow> json_state \<Rightarrow> json_error + (JsonValue \<times> json_state)"
  and parse_object_item_fuel ::
    "nat \<Rightarrow> string \<Rightarrow> json_state \<Rightarrow> json_error + (JsonValue JsonObjectItem \<times> json_state)"
  and parse_object_loop ::
    "nat \<Rightarrow> string \<Rightarrow> json_state \<Rightarrow> JsonValue JsonObject
       \<Rightarrow> json_error + (JsonValue JsonObject \<times> json_state)"
  and parse_array_loop ::
    "nat \<Rightarrow> string \<Rightarrow> json_state \<Rightarrow> JsonValue JsonArray
       \<Rightarrow> json_error + (JsonValue JsonArray \<times> json_state)"
where
  "parse_value_fuel 0 mem st = Inl Out_of_fuel"
| "parse_value_fuel (Suc n) mem st =
     bind_res (json_lexer_trim_left mem (lexer st)) (\<lambda>lx.
     bind_res (peek mem lx) (\<lambda>c.
       if isdigit c \<or> c = CHR ''.'' then parse_number mem (st\<lparr>lexer := lx\<rparr>)
       else if c = CHR 0x22 then parse_string mem (st\<lparr>lexer := lx\<rparr>)
       else if c = CHR ''f'' \<or> c = CHR ''t'' then parse_boolean mem (st\<lparr>lexer := lx\<rparr>)
       else if c = CHR ''{'' then
         bind_res (ignore_false lx (json_lexer_expect_char mem lx CHR ''{'')) (\<lambda>lx1.
         bind_res (parse_object_loop n mem (st\<lparr>lexer := lx1\<rparr>) (JsonObject 0 [])) (\<lambda>(object, st2).
         bind_res (json_lexer_trim_left mem (lexer st2)) (\<lambda>lx3.
         bind_res (json_lexer_expect_char mem lx3 CHR ''}'') (\<lambda>lx4.
           Inr (JsonValue JSON_OBJECT (As_object object), st2\<lparr>lexer := lx4\<rparr>)))))
       else if c = CHR ''['' then
         bind_res (json_lexer_expect_char mem lx CHR ''['') (\<lambda>lx1.
         bind_res (parse_array_loop n mem (st\<lparr>lexer := lx1\<rparr>) (JsonArray 0 [])) (\<lambda>(array, st2).
         bind_res (json_lexer_trim_left mem (lexer st2)) (\<lambda>lx3.
         bind_res (json_lexer_expect_char mem lx3 CHR '']'') (\<lambda>lx4.
           Inr (JsonValue JSON_ARRAY (As_array array), st2\<lparr>lexer := lx4\<rparr>)))))
       else Inl (Unexpected_char c)))"
| "parse_object_item_fuel 0 mem st = Inl Out_of_fuel"
| "parse_object_item_fuel (Suc n) mem st =
     bind_res (json_lexer_trim_left mem (lexer st)) (\<lambda>lx.
     bind_res (json_lexer_expect_char mem lx (CHR 0x22)) (\<lambda>lx1.
     bind_res (lexer_skip_while mem (\<lambda>c. c \<noteq> CHR 0x22) lx1) (\<lambda>lx2.
     bind_res (json_strndup mem (json_arena_size st) (cursor lx1)
                 (size_t_of_int (int_of_ptrdiff (cursor lx2 - cursor lx1)))) (\<lambda>(k, arena').
     bind_res (json_lexer_expect_char mem lx2 (CHR 0x22)) (\<lambda>lx3.
     bind_res (json_lexer_expect_char mem lx3 CHR '':'') (\<lambda>lx4.
     bind_res (parse_value_fuel n mem \<lparr>lexer = lx4, json_arena_size = arena'\<rparr>) (\<lambda>(v, st5).
       Inr (JsonObjectItem k v, st5))))))))"
| "parse_object_loop 0 mem st object = Inl Out_of_fuel"
| "parse_object_loop (Suc n) mem st object =
     (if json_is_empty (lexer st) then Inr (object, st)
      else
        bind_res (parse_object_item_fuel n mem st) (\<lambda>(item, st1).
        bind_res (json_object_append (json_arena_size st1) object (i_key item) (i_value item))
          (\<lambda>(object', arena').
        bind_res (peek mem (lexer st1)) (\<lambda>c.
          if c = CHR '','' then
            bind_res (json_lexer_expect_char mem (lexer st1) CHR '','') (\<lambda>lx2.
              parse_object_loop n mem \<lparr>lexer = lx2, json_arena_size = arena'\<rparr> object')
          else Inr (object', st1\<lparr>json_arena_size := arena'\<rparr>)))))"
| "parse_array_loop 0 mem st array = Inl Out_of_fuel"
| "parse_array_loop (Suc n) mem st array =
     (if json_is_empty (lexer st) then Inr (array, st)
      else
        bind_res (parse_value_fuel n mem st) (\<lambda>(value1, st1).
        bind_res (json_array_append (json_arena_size st1) array value1) (\<lambda>(array', arena').
        bind_res (peek mem (lexer st1)) (\<lambda>c.
          if c = CHR '','' then
            bind_res (json_lexer_expect_char mem (lexer st1) CHR '','') (\<lambda>lx2.
              parse_array_loop n mem \<lparr>lexer = lx2, json_arena_size = arena'\<rparr> array')
          else Inr (array', st1\<lparr>json_arena_size := arena'\<rparr>)))))"

definition parse_fuel :: "string \<Rightarrow> json_state \<Rightarrow> nat" where
  "parse_fuel mem st = 2 * (length mem - cursor (lexer st)) + 2"

definition json_lexer_parse_value :: "string \<Rightarrow> json_state \<Rightarrow> json_error + (JsonValue \<times> json_state)" where
  "json_lexer_parse_value mem st = parse_value_fuel (parse_fuel mem st) mem st"

definition json_lexer_parse_object_item ::
  "string \<Rightarrow> json_state \<Rightarrow> json_error + (JsonValue JsonObjectItem \<times> json_state)" where
  "json_lexer_parse_object_item mem st = parse_object_item_fuel (parse_fuel mem st) mem st"


text \<open>
  Parsing a C string literal: the storage is the text with its terminating zero, the lexer
  is \<^verbatim>\<open>json_lexer(text, strlen(text))\<close>, and the arena is unused.
\<close>

definition cstring :: "string \<Rightarrow> string" where
  "cstring s = s @ [CHR 0x00]"

definition init_state :: "string \<Rightarrow> json_state" where
  "init_state text = \<lparr>lexer = json_lexer 0 (length text), json_arena_size = 0\<rparr>"

definition json_parse_text :: "string \<Rightarrow> json_error + JsonValue" where
  "json_parse_text text =
     map_sum id fst (json_lexer_parse_value (cstring text) (init_state text))"


section \<open>ali.h: string builder (module ali\_sb), reading a file\<close>

text \<open>
  \<open>sb_data\<close> is the allocated buffer, \<open>sb_capacity\<close> bytes long. \<^verbatim>\<open>realloc\<close> keeps the old
  bytes and leaves the new ones indeterminate: they are taken from \<open>garbage\<close>, a parameter
  giving the byte found at each offset. The growth loop is the one of the dynamic array.
\<close>

record AliSb =
  sb_data :: string
  sb_count :: nat
  sb_capacity :: nat

definition ali_sb_maybe_resize :: "(nat \<Rightarrow> char) \<Rightarrow> AliSb \<Rightarrow> nat \<Rightarrow> AliSb" where
  "ali_sb_maybe_resize garbage self to_add =
     (if sb_count self + to_add \<ge> sb_capacity self then
        (let capacity' = da_grow (sb_count self) to_add (sb_capacity self)
         in self\<lparr>sb_capacity := capacity',
                 sb_data := take capacity' (sb_data self)
                            @ map garbage [length (sb_data self)..<capacity']\<rparr>)
      else self)"

text \<open>
  \<^verbatim>\<open>ali_sb_read_file\<close>. The file system is a function from a path to the text
  \<^verbatim>\<open>strerror(errno)\<close> gives when \<^verbatim>\<open>fopen\<close> fails (\<open>Inl\<close>) or to the file's bytes
  (\<open>Inr\<close>). The result is the returned \<^verbatim>\<open>bool\<close>, the builder and the log.
\<close>

definition ali_sb_read_file ::
  "ali_log \<Rightarrow> (string \<Rightarrow> string + string) \<Rightarrow> (nat \<Rightarrow> char) \<Rightarrow> AliSb \<Rightarrow> string
     \<Rightarrow> bool \<times> AliSb \<times> ali_log" where
  "ali_sb_read_file g fs garbage self path =
     (case fs path of
        Inl err \<Rightarrow>
          (False, self,
           ali_log_error g (''Couldn't read '' @ path @ '': '' @ err @ [CHR 0x0A]))
      | Inr bytes \<Rightarrow>
          (let n = length bytes;
               self1 = ali_sb_maybe_resize garbage self n;
               data' = take (sb_count self1) (sb_data self1) @ bytes
                       @ drop (sb_count self1 + n) (sb_data self1)
           in (True, self1\<lparr>sb_data := data', sb_count := sb_count self1 + n\<rparr>, g)))"


section \<open>main.c\<close>

text \<open>
  The loop of \<^verbatim>\<open>main\<close> over the indices of the array: each element is looked up with
  \<^verbatim>\<open>json_array_get_item\<close>, printed with \<^verbatim>\<open>json_stringify\<close> and followed by a newline.
  \<open>out\<close> is the text on the standard output.
\<close>

fun print_products :: "JsonValue JsonArray \<Rightarrow> nat list \<Rightarrow> string \<Rightarrow> json_error + string" where
  "print_products products [] out = Inr out"
| "print_products products (i # is) out =
     (case json_array_get_item products i of
        Ptr v \<Rightarrow>
          bind_res (json_stringify v) (\<lambda>s. print_products products is (out @ s @ [CHR 0x0A]))
      | Null_ptr \<Rightarrow> Inl Invalid_read
      | Null_plus n \<Rightarrow> Inl Invalid_read)"

text \<open>
  \<^verbatim>\<open>main\<close>: the exit code and the text on the standard output, or the outcome that is
  not a return. The diagnostics on the standard error stream are not kept.
\<close>

definition main :: "(string \<Rightarrow> string + string) \<Rightarrow> (nat \<Rightarrow> char) \<Rightarrow> json_error + (int \<times> string)" where
  "main fs garbage =
     (case ali_sb_read_file ali_log_init fs garbage
             \<lparr>sb_data = [], sb_count = 0, sb_capacity = 0\<rparr> ''products.json'' of
        (False, sb, g) \<Rightarrow> Inr (1, written g Stdout)
      | (True, sb, g) \<Rightarrow>
          (case json_lexer_parse_value (sb_data sb)
                  \<lparr>lexer = json_lexer 0 (sb_count sb), json_arena_size = 0\<rparr> of
             Inl e \<Rightarrow> if returned_false e then Inr (1, written g Stdout) else Inl e
           | Inr (v, st) \<Rightarrow>
               (case json_value_as_object v of
                  None \<Rightarrow> Inr (1, written g Stdout)
                | Some value_as_object \<Rightarrow>
                    bind_res (read_object value_as_object) (\<lambda>object.
                      case json_object_find_value object ''products'' of
                        None \<Rightarrow> Inr (1, written g Stdout)
                      | Some products_json \<Rightarrow>
                          (case json_value_as_array products_json of
                             None \<Rightarrow> Inr (1, written g Stdout)
                           | Some products_ptr \<Rightarrow>
                               bind_res (read_array products_ptr) (\<lambda>products.
                               bind_res (print_products products [0..<a_len products]
                                           (written g Stdout)) (\<lambda>out.
                                 Inr (0, out))))))))"


text \<open>The two example texts of the specification.\<close>

definition products_text :: string where
  \<open>products_text = ''{"products": [1, 2, 3]}''\<close>

definition ab_text :: string where
  \<open>ab_text = ''{"a": true, "b": "hi"}''\<close>


section \<open>Predicates of the verification\<close>

text \<open>
  A value is well tagged when its tag names the union member that is stored, the length
  field of an array or object counts its nodes, and the values inside are well tagged.
\<close>

function (sequential) well_tagged :: "JsonValue \<Rightarrow> bool"
  and well_tagged_nodes :: "JsonValue list \<Rightarrow> bool"
  and well_tagged_items :: "JsonValue JsonObjectItem list \<Rightarrow> bool"
where
  "well_tagged (JsonValue JSON_NUMBER (As_number x)) = True"
| "well_tagged (JsonValue JSON_STRING (As_string s)) = True"
| "well_tagged (JsonValue JSON_BOOLEAN (As_boolean b)) = True"
| "well_tagged (JsonValue JSON_ARRAY (As_array (JsonArray n nodes))) =
     (n = length nodes \<and> well_tagged_nodes nodes)"
| "well_tagged (JsonValue JSON_OBJECT (As_object (JsonObject n items))) =
     (n = length items \<and> well_tagged_items items)"
| "well_tagged (JsonValue t u) = False"
| "well_tagged_nodes [] = True"
| "well_tagged_nodes (v # cur) = (well_tagged v \<and> well_tagged_nodes cur)"
| "well_tagged_items [] = True"
| "well_tagged_items (JsonObjectItem k v # cur) = (well_tagged v \<and> well_tagged_items cur)"
  by pat_completeness auto
termination
  by (relation "measure (\<lambda>x. case x of
                    Inl v \<Rightarrow> size v
                  | Inr (Inl vs) \<Rightarrow> size_list size vs
                  | Inr (Inr items) \<Rightarrow> size_list (size_JsonObjectItem size) items)")
     auto

text \<open>The cursor stands on an \<^verbatim>\<open>f\<close> or a \<^verbatim>\<open>t\<close>.\<close>

definition at_bool :: "string \<Rightarrow> json_state \<Rightarrow> bool" where
  "at_bool mem st = (peek mem (lexer st) = Inr CHR ''f'' \<or> peek mem (lexer st) = Inr CHR ''t'')"

text \<open>The value the branch for \<^verbatim>\<open>f\<close> and \<^verbatim>\<open>t\<close> produces.\<close>

definition bool_slip :: "JsonValue \<Rightarrow> bool" where
  "bool_slip v = (v_type v = JSON_STRING \<and> (case v_as v of As_boolean b \<Rightarrow> True | _ \<Rightarrow> False))"


text \<open>
  What \<^verbatim>\<open>main\<close> hands to the parser for a file with the given bytes: the buffer of the
  string builder after \<^verbatim>\<open>sb_read_file\<close> (the bytes, then the rest of the allocation),
  and the lexer over the bytes.
\<close>

definition file_buffer :: "(nat \<Rightarrow> char) \<Rightarrow> string \<Rightarrow> string" where
  "file_buffer garbage bytes =
     bytes @ map garbage [length bytes..<da_grow 0 (length bytes) 0]"

definition file_state :: "string \<Rightarrow> json_state" where
  "file_state bytes = \<lparr>lexer = json_lexer 0 (length bytes), json_arena_size = 0\<rparr>"

definition parse_file :: "(nat \<Rightarrow> char) \<Rightarrow> string \<Rightarrow> json_error + (JsonValue \<times> json_state)" where
  "parse_file garbage bytes = json_lexer_parse_value (file_buffer garbage bytes) (file_state bytes)"

text \<open>File systems for the examples: one file \<^verbatim>\<open>products.json\<close>, or none.\<close>

definition fs_with :: "string \<Rightarrow> string \<Rightarrow> string + string" where
  "fs_with bytes path =
     (if path = ''products.json'' then Inr bytes else Inl ''No such file or directory'')"

definition fs_none :: "string \<Rightarrow> string + string" where
  "fs_none path = Inl ''No such file or directory''"

definition zeros :: "nat \<Rightarrow> char" where
  "zeros i = CHR 0x00"


text \<open>Further file contents for the examples.\<close>

definition no_products_text :: string where
  \<open>no_products_text = ''{"a": 1}''\<close>

definition products_number_text :: string where
  \<open>products_number_text = ''{"products": 1}''\<close>


section \<open>Verification\<close>

subsection \<open>Logging\<close>

lemma ali_log_log_written:
  "written (ali_log_log g level msg) f =
     (if loglevel_value level \<le> loglevel_value (ali_global_loglevel g)
         \<and> f = (case ali_global_logfile g of None \<Rightarrow> Stdout | Some f' \<Rightarrow> f')
      then written g f @ ''['' @ loglevel_to_str level @ ''] '' @ msg @ [CHR 0x0A]
      else written g f)"
  by (simp add: ali_log_log_def fputs_def Let_def)

text \<open>
  C2. The claim: a message is written exactly when its level is at least the configured
  minimum, so that with the default minimum \<^verbatim>\<open>LOG_INFO\<close> every level is emitted. The
  code compares the other way round (\<^verbatim>\<open>ali_global_loglevel >= level\<close>): with the
  default globals a \<^verbatim>\<open>LOG_WARN\<close> or \<^verbatim>\<open>LOG_ERROR\<close> message leaves every stream as it
  was, and only \<^verbatim>\<open>LOG_INFO\<close> is written.
\<close>

theorem ali_log_log_default_drops_warn_and_error:
  "written (ali_log_log ali_log_init LOG_WARN msg) f = []
   \<and> written (ali_log_log ali_log_init LOG_ERROR msg) f = []
   \<and> written (ali_log_log ali_log_init LOG_INFO msg) Stdout = ''[INFO] '' @ msg @ [CHR 0x0A]"
  by (simp add: ali_log_log_written ali_log_init_def)

subsection \<open>Dynamic array\<close>

lemma da_appends_snoc: "da_appends (xs @ [x]) = ali_da_append (da_appends xs) x"
  by (simp add: da_appends_def)

lemma da_appends_Nil: "da_appends [] = None"
  by (simp add: da_appends_def)

lemma ali_da_append_count:
  "\<exists>h. ali_da_append da x = Some h \<and> da_count h = Suc (ali_da_getlen da)"
  by (cases da)
     (simp_all add: ali_da_append_def ali_da_maybe_resize_with_size_def Let_def
        ali_da_get_header_with_size_def ali_da_new_header_with_size_def ali_da_getlen_def)

lemma ali_da_getlen_Some: "ali_da_getlen (Some h) = da_count h"
  by (simp add: ali_da_getlen_def ali_da_get_header_with_size_def)

lemma ali_da_getlen_appends: "ali_da_getlen (da_appends xs) = length xs"
proof (induction xs rule: rev_induct)
  case Nil
  show ?case by (simp add: da_appends_Nil ali_da_getlen_def)
next
  case (snoc x xs)
  obtain h where h: "ali_da_append (da_appends xs) x = Some h"
    and c: "da_count h = Suc (ali_da_getlen (da_appends xs))"
    using ali_da_append_count[of "da_appends xs" x] by auto
  have "ali_da_getlen (da_appends (xs @ [x])) = da_count h"
    by (simp only: da_appends_snoc h ali_da_getlen_Some)
  also have "\<dots> = Suc (length xs)" by (simp only: c snoc)
  finally show ?case by simp
qed

lemma da_append_None:
  "ali_da_append None x = Some \<lparr>da_count = 1, da_capacity = 8, da_data = [x]\<rparr>"
  by (simp add: ali_da_append_def ali_da_maybe_resize_with_size_def Let_def
      ali_da_get_header_with_size_def ali_da_new_header_with_size_def
      ALI_DA_DEFAULT_INIT_CAPACITY_def)

lemma da_append_no_grow:
  "Suc (da_count h) < da_capacity h \<Longrightarrow>
   \<exists>h'. ali_da_append (Some h) x = Some h' \<and> da_count h' = Suc (da_count h)
        \<and> da_capacity h' = da_capacity h"
  by (simp add: ali_da_append_def ali_da_maybe_resize_with_size_def Let_def
      ali_da_get_header_with_size_def)

lemma da_grow_7: "da_grow 7 1 8 = 16"
  by (simp add: da_grow.simps ALI_DA_DEFAULT_INIT_CAPACITY_def)

lemma da_grow_7': "da_grow 7 (Suc 0) 8 = 16"
  using da_grow_7 by simp

lemma da_appends_single: "da_appends [x] = ali_da_append None x"
  by (simp add: da_appends_def)

lemma da_append_grow_7:
  "da_count h = 7 \<Longrightarrow> da_capacity h = 8 \<Longrightarrow>
   \<exists>h'. ali_da_append (Some h) x = Some h' \<and> da_count h' = 8 \<and> da_capacity h' = 16"
  by (simp add: ali_da_append_def ali_da_maybe_resize_with_size_def Let_def
      ali_da_get_header_with_size_def da_grow_7')

lemma da_appends_small:
  "xs \<noteq> [] \<Longrightarrow> length xs \<le> 7 \<Longrightarrow>
   \<exists>h. da_appends xs = Some h \<and> da_count h = length xs \<and> da_capacity h = 8"
proof (induction xs rule: rev_induct)
  case Nil
  then show ?case by simp
next
  case (snoc x xs)
  show ?case
  proof (cases "xs = []")
    case True
    then show ?thesis by (simp add: da_appends_single da_append_None)
  next
    case False
    with snoc obtain h where h: "da_appends xs = Some h" "da_count h = length xs" "da_capacity h = 8"
      by auto
    from snoc.prems h have "Suc (da_count h) < da_capacity h" by simp
    from da_append_no_grow[OF this, of x] h show ?thesis
      by (auto simp: da_appends_snoc)
  qed
qed

lemma da_appends_eight:
  assumes "length xs = 8"
  shows "\<exists>h. da_appends xs = Some h \<and> da_count h = 8 \<and> da_capacity h = 16"
proof -
  from assms obtain ys y where xs: "xs = ys @ [y]" and l: "length ys = 7"
    by (cases xs rule: rev_cases) auto
  from l have "ys \<noteq> []" by auto
  with da_appends_small[of ys] l obtain h where
    h: "da_appends ys = Some h" "da_count h = 7" "da_capacity h = 8" by auto
  from da_append_grow_7[OF h(2,3), of y] h(1) show ?thesis
    by (auto simp: xs da_appends_snoc)
qed

text \<open>
  C6, as the code has it. Appending the elements of any list \<open>xs\<close> to the empty handle
  makes \<^verbatim>\<open>ali_da_getlen\<close> return \<open>length xs\<close> (so 0, 1, 8, 9 and 1000 elements read back
  as 0, 1, 8, 9 and 1000). The resize test is \<^verbatim>\<open>count + to_add >= capacity\<close>: the capacity
  is the initial 8 after each of the first seven appends and doubles to 16 during the
  eighth, that is across the boundary from 7 to 8 elements.
\<close>

theorem da_append_len_and_capacity:
  "ali_da_getlen (da_appends xs) = length xs
   \<and> (1 \<le> length xs \<and> length xs \<le> 7 \<longrightarrow> map_option da_capacity (da_appends xs) = Some 8)
   \<and> (length xs = 8 \<longrightarrow> map_option da_capacity (da_appends xs) = Some 16)"
proof (intro conjI impI)
  show "ali_da_getlen (da_appends xs) = length xs" by (rule ali_da_getlen_appends)
next
  assume "1 \<le> length xs \<and> length xs \<le> 7"
  then have "xs \<noteq> []" "length xs \<le> 7" by auto
  from da_appends_small[OF this] show "map_option da_capacity (da_appends xs) = Some 8" by auto
next
  assume "length xs = 8"
  from da_appends_eight[OF this] show "map_option da_capacity (da_appends xs) = Some 16" by auto
qed

theorem da_append_len_and_capacity_witness:
  "ali_da_getlen (da_appends ([] :: nat list)) = 0
   \<and> ali_da_getlen (da_appends [10 :: nat]) = 1
   \<and> ali_da_getlen (da_appends [1, 2, 3, 4, 5, 6, 7, 8 :: nat]) = 8
   \<and> ali_da_getlen (da_appends [1, 2, 3, 4, 5, 6, 7, 8, 9 :: nat]) = 9
   \<and> ali_da_getlen (da_appends (replicate 1000 (0 :: nat))) = 1000
   \<and> map_option da_capacity (da_appends [10 :: nat]) = Some 8
   \<and> map_option da_capacity (da_appends [1, 2, 3, 4, 5, 6, 7 :: nat]) = Some 8
   \<and> map_option da_capacity (da_appends [1, 2, 3, 4, 5, 6, 7, 8 :: nat]) = Some 16"
  using da_append_len_and_capacity [of "[] :: nat list"]
    da_append_len_and_capacity [of "[10 :: nat]"]
    da_append_len_and_capacity [of "[1, 2, 3, 4, 5, 6, 7 :: nat]"]
    da_append_len_and_capacity [of "[1, 2, 3, 4, 5, 6, 7, 8 :: nat]"]
    da_append_len_and_capacity [of "[1, 2, 3, 4, 5, 6, 7, 8, 9 :: nat]"]
    da_append_len_and_capacity [of "replicate 1000 (0 :: nat)"]
  by simp

text \<open>
  The claim as stated fails at eight elements: after eight appends the capacity is no
  longer the initial 8.
\<close>

theorem da_capacity_after_eight_appends:
  "map_option da_capacity (da_appends [1, 2, 3, 4, 5, 6, 7, 8 :: nat]) \<noteq> Some 8"
  using da_appends_eight [of "[1, 2, 3, 4, 5, 6, 7, 8 :: nat]"] by auto

subsection \<open>UTF-8\<close>

lemma utf8_roundtrip_41: "utf8_roundtrip 0x41 = Some (0x41, Some (ali_codepoint_size 0x41))"
  by (simp add: utf8_roundtrip_def ali_codepoint_to_utf8_def ali_utf8c_to_codepoint_def
      ali_codepoint_size_def utf8_static_init_def byte_at_def)

lemma utf8_roundtrip_7FF: "utf8_roundtrip 0x7FF = Some (0x7FF, Some (ali_codepoint_size 0x7FF))"
  by (simp add: utf8_roundtrip_def ali_codepoint_to_utf8_def ali_utf8c_to_codepoint_def
      ali_codepoint_size_def utf8_static_init_def byte_at_def)

lemma utf8_roundtrip_FFFF: "utf8_roundtrip 0xFFFF = Some (0xFFFF, Some (ali_codepoint_size 0xFFFF))"
  by (simp add: utf8_roundtrip_def ali_codepoint_to_utf8_def ali_utf8c_to_codepoint_def
      ali_codepoint_size_def utf8_static_init_def byte_at_def)

text \<open>
  C3. The claim: for each of the codepoints \<open>0x41\<close>, \<open>0x7FF\<close>, \<open>0xFFFF\<close> and \<open>0x10FFFF\<close>,
  decoding the encoded bytes gives the codepoint back, with the size
  \<^verbatim>\<open>ali_codepoint_size\<close> reports. It holds for the first three (lemmas above). For
  \<open>0x10FFFF\<close> the encoder writes the four bytes \<open>F4 8F BF BF\<close>, and the decoder's four-byte
  branch masks the lead byte with \<open>0x1F\<close> where the encoder used \<open>0x07\<close>: bit 4 of the lead
  byte \<open>0xF4\<close> survives and the decoder returns \<open>0x50FFFF\<close>.
\<close>

theorem utf8_roundtrip_10FFFF:
  "ali_codepoint_to_utf8 utf8_static_init 0x10FFFF = Some [0xF4, 0x8F, 0xBF, 0xBF, 0]
   \<and> ali_codepoint_size 0x10FFFF = 4
   \<and> utf8_roundtrip 0x10FFFF = Some (0x50FFFF, Some 4)"
  by (simp add: utf8_roundtrip_def ali_codepoint_to_utf8_def ali_utf8c_to_codepoint_def
      ali_codepoint_size_def utf8_static_init_def byte_at_def)

subsection \<open>Arena\<close>

lemma cap_val: "ALI_REGION_DEFAULT_CAP = 4096"
  by (simp add: ALI_REGION_DEFAULT_CAP_def)

lemma region_alloc_success:
  assumes "region_ok r" "ali_region_alloc r sz = (Some p, r')"
  shows "p = r_count r \<and> r' = r\<lparr>r_count := r_count r + sz\<rparr> \<and> r_count r + sz < ALI_REGION_DEFAULT_CAP"
  using assms by (auto simp: ali_region_alloc_def region_ok_def split: if_splits)

lemma region_alloc_fail:
  assumes "ali_region_alloc r sz = (None, r')"
  shows "r' = r"
  using assms by (auto simp: ali_region_alloc_def split: if_splits)

lemma region_alloc_fresh:
  assumes "sz < ALI_REGION_DEFAULT_CAP"
  shows "ali_region_alloc (ali_region_new ALI_REGION_DEFAULT_CAP) sz
         = (Some 0, \<lparr>r_count = sz, r_capacity = ALI_REGION_DEFAULT_CAP\<rparr>)"
  using assms by (simp add: ali_region_alloc_def ali_region_new_def)

lemma small_sum:
  fixes c sz :: size_t
  assumes "c < 4096" "sz < 4096" "c + sz < 4096"
  shows "unat c + unat sz < 4096"
proof -
  from assms(1,2) have "unat c < 4096" "unat sz < 4096"
    by (simp_all add: word_less_nat_alt)
  then have "unat c + unat sz < 2 ^ LENGTH(64)" by simp
  then have "unat (c + sz) = unat c + unat sz" by (simp only: unat_add_lem)
  with assms(3) show ?thesis by (simp add: word_less_nat_alt)
qed

lemma big_sum:
  fixes c sz :: size_t
  assumes "c < 4096" "4096 \<le> sz" "sz \<le> - 4096"
  shows "4096 \<le> c + sz"
proof -
  from assms have "unat c < 4096" "4096 \<le> unat sz" "unat sz \<le> 2 ^ 64 - 4096"
    by (simp_all add: word_less_nat_alt word_le_nat_alt)
  then have "unat c + unat sz < 2 ^ LENGTH(64)" by simp
  then have "unat (c + sz) = unat c + unat sz" by (simp only: unat_add_lem)
  with \<open>4096 \<le> unat sz\<close> show ?thesis by (simp add: word_le_nat_alt)
qed

lemma region_alloc_big:
  assumes "region_ok r" "ALI_REGION_DEFAULT_CAP \<le> sz" "sz \<le> - ALI_REGION_DEFAULT_CAP"
  shows "ali_region_alloc r sz = (None, r)"
  using assms big_sum[of "r_count r" sz]
  by (simp add: ali_region_alloc_def region_ok_def cap_val)


lemma region_ok_alloc:
  assumes "region_ok r" "ali_region_alloc r sz = (Some p, r')"
  shows "region_ok r'"
  using region_alloc_success[OF assms] assms(1) by (simp add: region_ok_def)

lemma list_all_update:
  assumes "list_all P xs" "P x"
  shows "list_all P (xs[i := x])"
  using assms set_update_subset_insert[of xs i x] by (auto simp: list_all_iff)

lemma arena_alloc_loop_terminates:
  assumes "list_all region_ok rs" "region < length rs" "sz < ALI_REGION_DEFAULT_CAP"
  shows "\<exists>k p rs'. arena_alloc_loop rs region sz = Some (Inr ((k, p), rs', k))
           \<and> k < length rs' \<and> list_all region_ok rs' \<and> unat p + unat sz < 4096"
  using assms
proof (induction n \<equiv> "length rs - region" arbitrary: region rs)
  case 0
  then show ?case by simp
next
  case (Suc n)
  let ?r = "rs ! region"
  from Suc.prems have ok: "region_ok ?r" by (simp add: list_all_length)
  obtain q r' where alloc: "ali_region_alloc ?r sz = (q, r')" by fastforce
  show ?case
  proof (cases q)
    case (Some p)
    from region_alloc_success[OF ok alloc[unfolded Some]]
    have p: "p = r_count ?r" and lt: "r_count ?r + sz < ALI_REGION_DEFAULT_CAP" by auto
    from ok have "r_count ?r < 4096" by (simp add: region_ok_def cap_val)
    with lt Suc.prems(3) have "unat p + unat sz < 4096"
      using small_sum[of "r_count ?r" sz] by (simp add: cap_val p)
    moreover have "list_all region_ok (rs[region := r'])"
      using Suc.prems(1) region_ok_alloc[OF ok alloc[unfolded Some]] by (rule list_all_update)
    moreover have "arena_alloc_loop rs region sz = Some (Inr ((region, p), rs[region := r'], region))"
      using Suc.prems(2) alloc Some by (subst arena_alloc_loop.simps) simp
    ultimately show ?thesis using Suc.prems(2) by auto
  next
    case None
    show ?thesis
    proof (cases "Suc region < length rs")
      case True
      have step: "arena_alloc_loop rs region sz = arena_alloc_loop rs (Suc region) sz"
        using Suc.prems(2) alloc None True by (subst arena_alloc_loop.simps) simp
      from Suc.hyps(2) True have "n = length rs - Suc region" by simp
      from Suc.hyps(1)[OF this Suc.prems(1) True Suc.prems(3)] show ?thesis
        by (simp only: step)
    next
      case False
      let ?new = "ali_region_new ALI_REGION_DEFAULT_CAP"
      let ?rs = "rs @ [?new]"
      from False Suc.prems(2) have len: "Suc region = length rs" by simp
      have step: "arena_alloc_loop rs region sz = arena_alloc_loop ?rs (Suc region) sz"
        using Suc.prems(2) alloc None False by (subst arena_alloc_loop.simps) simp
      have nth: "?rs ! Suc region = ?new" by (simp add: len)
      have "arena_alloc_loop ?rs (Suc region) sz
            = Some (Inr ((Suc region, 0), ?rs[Suc region := \<lparr>r_count = sz, r_capacity = ALI_REGION_DEFAULT_CAP\<rparr>], Suc region))"
        by (subst arena_alloc_loop.simps)
           (simp add: len nth region_alloc_fresh[OF Suc.prems(3)] del: list_update.simps)
      moreover have "list_all region_ok (?rs[Suc region := \<lparr>r_count = sz, r_capacity = ALI_REGION_DEFAULT_CAP\<rparr>])"
        using Suc.prems(1,3) by (intro list_all_update) (simp_all add: region_ok_def ali_region_new_def cap_val)
      moreover from Suc.prems(3) have "unat (0::size_t) + unat sz < 4096"
        by (simp add: cap_val word_less_nat_alt)
      ultimately show ?thesis using len by (auto simp: step)
    qed
  qed
qed

lemma arena_alloc_loop_diverges:
  assumes "arena_alloc_loop rs region sz = Some y"
  shows "\<not> (list_all region_ok rs \<and> region < length rs
            \<and> ALI_REGION_DEFAULT_CAP \<le> sz \<and> sz \<le> - ALI_REGION_DEFAULT_CAP)"
proof (rule arena_alloc_loop.raw_induct
    [where P = "\<lambda>rs region sz y. \<not> (list_all region_ok rs \<and> region < length rs
            \<and> ALI_REGION_DEFAULT_CAP \<le> sz \<and> sz \<le> - ALI_REGION_DEFAULT_CAP)", OF _ assms])
  fix loop rs region sz and y :: "ali_fault + (nat \<times> size_t) \<times> AliRegion list \<times> nat"
  let ?rs = "if Suc region < length rs then rs else rs @ [ali_region_new ALI_REGION_DEFAULT_CAP]"
  assume IH: "\<And>rs region sz y. loop rs region sz = Some y \<Longrightarrow>
            \<not> (list_all region_ok rs \<and> region < length rs
            \<and> ALI_REGION_DEFAULT_CAP \<le> sz \<and> sz \<le> - ALI_REGION_DEFAULT_CAP)"
    and body: "(if region < length rs
      then case ali_region_alloc (rs ! region) sz of
           (None, r') \<Rightarrow> loop ?rs (Suc region) sz
           | (Some ptr, r') \<Rightarrow> Some (Inr ((region, ptr), rs[region := r'], region))
      else Some (Inl Null_dereference)) = Some y"
  show "\<not> (list_all region_ok rs \<and> region < length rs
            \<and> ALI_REGION_DEFAULT_CAP \<le> sz \<and> sz \<le> - ALI_REGION_DEFAULT_CAP)"
  proof
    assume a: "list_all region_ok rs \<and> region < length rs
            \<and> ALI_REGION_DEFAULT_CAP \<le> sz \<and> sz \<le> - ALI_REGION_DEFAULT_CAP"
    then have ok: "region_ok (rs ! region)" by (simp add: list_all_length)
    from a ok have fail: "ali_region_alloc (rs ! region) sz = (None, rs ! region)"
      by (intro region_alloc_big) auto
    with body a have rec: "loop ?rs (Suc region) sz = Some y" by simp
    have "list_all region_ok ?rs \<and> Suc region < length ?rs"
      using a by (auto simp: region_ok_def ali_region_new_def cap_val)
    with IH[OF rec] a show False by blast
  qed
qed


lemma ali_arena_alloc_small:
  assumes "arena_inv a" "sz < ALI_REGION_DEFAULT_CAP"
  shows "\<exists>ptr a'. ali_arena_alloc a sz = Some (Inr (ptr, a')) \<and> block_in_region a' ptr sz
           \<and> arena_inv a'"
proof -
  let ?a1 = "if regions a = []
             then \<lparr>regions = [ali_region_new ALI_REGION_DEFAULT_CAP], a_end = Some 0\<rparr> else a"
  from assms(1) obtain e where e: "a_end ?a1 = Some e" "e < length (regions ?a1)"
    and ok: "list_all region_ok (regions ?a1)"
  proof (cases "regions a = []")
    case True
    then show ?thesis
      using that[of 0] by (simp add: region_ok_def ali_region_new_def cap_val)
  next
    case False
    with assms(1) show ?thesis
      using that by (cases "a_end a") (auto simp: arena_inv_def)
  qed
  from arena_alloc_loop_terminates[OF ok e(2) assms(2)] obtain k p rs' where
    loop: "arena_alloc_loop (regions ?a1) e sz = Some (Inr ((k, p), rs', k))"
    and k: "k < length rs'" and ok': "list_all region_ok rs'" and fit: "unat p + unat sz < 4096"
    by blast
  from k ok' have "r_capacity (rs' ! k) = 4096"
    by (simp add: list_all_length region_ok_def cap_val)
  with k fit have "block_in_region \<lparr>regions = rs', a_end = Some k\<rparr> (k, p) sz"
    by (simp add: block_in_region_def)
  moreover from k ok' have "arena_inv \<lparr>regions = rs', a_end = Some k\<rparr>"
    by (simp add: arena_inv_def)
  moreover have "ali_arena_alloc a sz = Some (Inr ((k, p), \<lparr>regions = rs', a_end = Some k\<rparr>))"
    unfolding ali_arena_alloc_def Let_def using e(1) loop by simp
  ultimately show ?thesis by blast
qed

lemma ali_arena_alloc_big:
  assumes "arena_inv a" "ALI_REGION_DEFAULT_CAP \<le> sz" "sz \<le> - ALI_REGION_DEFAULT_CAP"
  shows "ali_arena_alloc a sz = None"
proof -
  let ?a1 = "if regions a = []
             then \<lparr>regions = [ali_region_new ALI_REGION_DEFAULT_CAP], a_end = Some 0\<rparr> else a"
  from assms(1) obtain e where e: "a_end ?a1 = Some e" "e < length (regions ?a1)"
    and ok: "list_all region_ok (regions ?a1)"
  proof (cases "regions a = []")
    case True
    then show ?thesis
      using that[of 0] by (simp add: region_ok_def ali_region_new_def cap_val)
  next
    case False
    with assms(1) show ?thesis
      using that by (cases "a_end a") (auto simp: arena_inv_def)
  qed
  have "arena_alloc_loop (regions ?a1) e sz = None"
  proof (cases "arena_alloc_loop (regions ?a1) e sz")
    case (Some y)
    from arena_alloc_loop_diverges[OF Some] ok e(2) assms(2,3) show ?thesis by blast
  qed simp
  then show ?thesis
    unfolding ali_arena_alloc_def Let_def using e(1) by simp
qed

text \<open>
  C9, as the code has it. In an arena whose regions all have the default capacity (the
  only capacity \<^verbatim>\<open>ali_arena_alloc\<close> creates) and a request of at most
  \<open>2 ^ 64 - 4096\<close> bytes, for which \<^verbatim>\<open>count + size\<close> cannot wrap around:
  a request below the region capacity returns a block inside one region, and a request of
  at least the region capacity never returns (\<open>None\<close> is the loop that does not end).
\<close>

theorem ali_arena_alloc_returns_iff_below_capacity:
  assumes "arena_inv a" "sz \<le> - ALI_REGION_DEFAULT_CAP"
  shows "(sz < ALI_REGION_DEFAULT_CAP \<longrightarrow>
            (\<exists>ptr a'. ali_arena_alloc a sz = Some (Inr (ptr, a')) \<and> block_in_region a' ptr sz
               \<and> arena_inv a'))
         \<and> (ALI_REGION_DEFAULT_CAP \<le> sz \<longrightarrow> ali_arena_alloc a sz = None)"
  using ali_arena_alloc_small[OF assms(1)] ali_arena_alloc_big[OF assms(1) _ assms(2)]
  by blast

theorem ali_arena_alloc_returns_iff_below_capacity_witness:
  "arena_inv arena_empty
   \<and> (100 :: size_t) \<le> - ALI_REGION_DEFAULT_CAP \<and> (100 :: size_t) < ALI_REGION_DEFAULT_CAP
   \<and> (\<exists>ptr a'. ali_arena_alloc arena_empty 100 = Some (Inr (ptr, a'))
         \<and> block_in_region a' ptr 100 \<and> arena_inv a')
   \<and> (4096 :: size_t) \<le> - ALI_REGION_DEFAULT_CAP \<and> ALI_REGION_DEFAULT_CAP \<le> (4096 :: size_t)
   \<and> ali_arena_alloc arena_empty 4096 = None"
proof -
  have inv: "arena_inv arena_empty" by (simp add: arena_inv_def arena_empty_def)
  have a: "(100 :: size_t) \<le> - ALI_REGION_DEFAULT_CAP" "(100 :: size_t) < ALI_REGION_DEFAULT_CAP"
    and b: "(4096 :: size_t) \<le> - ALI_REGION_DEFAULT_CAP" "ALI_REGION_DEFAULT_CAP \<le> (4096 :: size_t)"
    by (simp_all add: cap_val)
  from ali_arena_alloc_returns_iff_below_capacity[OF inv a(1)]
    ali_arena_alloc_returns_iff_below_capacity[OF inv b(1)] inv a b
  show ?thesis by blast
qed

lemma ali_arena_rollback_zeroes:
  assumes "i < length (regions a)"
  shows "\<exists>a'. ali_arena_rollback a \<lparr>m_r = Some i, m_count = c\<rparr> = Inr a'
           \<and> a_end a' = Some i \<and> length (regions a') = length (regions a)
           \<and> take i (regions a') = take i (regions a)
           \<and> list_all (\<lambda>r. r_count r = 0) (drop i (regions a'))"
  using assms by (simp add: ali_arena_rollback_def Let_def list_all_iff)

lemma region_alloc_evals:
  "ali_region_alloc \<lparr>r_count = 0, r_capacity = 4096\<rparr> 1 = (Some 0, \<lparr>r_count = 1, r_capacity = 4096\<rparr>)"
  "ali_region_alloc \<lparr>r_count = 1, r_capacity = 4096\<rparr> (- 1) = (Some 1, \<lparr>r_count = 0, r_capacity = 4096\<rparr>)"
  "ali_region_alloc \<lparr>r_count = 0, r_capacity = 4096\<rparr> 16 = (Some 0, \<lparr>r_count = 16, r_capacity = 4096\<rparr>)"
  "ali_region_alloc \<lparr>r_count = 16, r_capacity = 4096\<rparr> 8 = (Some 16, \<lparr>r_count = 24, r_capacity = 4096\<rparr>)"
  "ali_region_alloc \<lparr>r_count = 0, r_capacity = 4096\<rparr> 8 = (Some 0, \<lparr>r_count = 8, r_capacity = 4096\<rparr>)"
  by (simp_all add: ali_region_alloc_def word_le_nat_alt)

text \<open>
  The claim as stated fails where the sum wraps around. After one byte has been allocated
  from the empty arena, a request of \<open>2 ^ 64 - 1\<close> bytes (far above the region capacity)
  makes \<^verbatim>\<open>count + size\<close> wrap to 0: \<^verbatim>\<open>ali_region_alloc\<close> accepts it and
  \<^verbatim>\<open>ali_arena_alloc\<close> returns.
\<close>

theorem ali_arena_alloc_size_max_returns:
  "ali_arena_alloc arena_empty 1
     = Some (Inr ((0, 0), \<lparr>regions = [\<lparr>r_count = 1, r_capacity = 4096\<rparr>], a_end = Some 0\<rparr>))
   \<and> ALI_REGION_DEFAULT_CAP \<le> (- 1 :: size_t)
   \<and> ali_arena_alloc \<lparr>regions = [\<lparr>r_count = 1, r_capacity = 4096\<rparr>], a_end = Some 0\<rparr> (- 1)
     = Some (Inr ((0, 1), \<lparr>regions = [\<lparr>r_count = 0, r_capacity = 4096\<rparr>], a_end = Some 0\<rparr>))"
  by (simp add: ali_arena_alloc_def arena_empty_def arena_alloc_loop.simps region_alloc_evals
      ali_region_new_def cap_val)

text \<open>
  C4. The claim: a rollback restores the marked region's offset to the offset captured by
  the mark, so that the next allocation reuses the address it would have had at mark time.
  The code stores the captured offset and then zeroes every region starting at the
  marked one itself. After 16 bytes, a mark, 8 more bytes and the rollback, the marked
  region's offset is 0 instead of 16, and the next allocation of 8 bytes returns offset 0
  of region 0, the address of the block allocated before the mark, where at mark
  time it returned offset 16.
\<close>

theorem ali_arena_rollback_loses_marked_offset:
  "ali_arena_alloc arena_empty 16
     = Some (Inr ((0, 0), \<lparr>regions = [\<lparr>r_count = 16, r_capacity = 4096\<rparr>], a_end = Some 0\<rparr>))
   \<and> ali_arena_mark \<lparr>regions = [\<lparr>r_count = 16, r_capacity = 4096\<rparr>], a_end = Some 0\<rparr>
     = Inr \<lparr>m_r = Some 0, m_count = 16\<rparr>
   \<and> ali_arena_alloc \<lparr>regions = [\<lparr>r_count = 16, r_capacity = 4096\<rparr>], a_end = Some 0\<rparr> 8
     = Some (Inr ((0, 16), \<lparr>regions = [\<lparr>r_count = 24, r_capacity = 4096\<rparr>], a_end = Some 0\<rparr>))
   \<and> ali_arena_rollback \<lparr>regions = [\<lparr>r_count = 24, r_capacity = 4096\<rparr>], a_end = Some 0\<rparr>
        \<lparr>m_r = Some 0, m_count = 16\<rparr>
     = Inr \<lparr>regions = [\<lparr>r_count = 0, r_capacity = 4096\<rparr>], a_end = Some 0\<rparr>
   \<and> ali_arena_alloc \<lparr>regions = [\<lparr>r_count = 0, r_capacity = 4096\<rparr>], a_end = Some 0\<rparr> 8
     = Some (Inr ((0, 0), \<lparr>regions = [\<lparr>r_count = 8, r_capacity = 4096\<rparr>], a_end = Some 0\<rparr>))"
  by (simp add: ali_arena_alloc_def arena_empty_def arena_alloc_loop.simps region_alloc_evals
      ali_region_new_def cap_val ali_arena_mark_def ali_arena_rollback_def)

subsection \<open>String view\<close>

lemma chop_by_c_loop_found:
  assumes "a + n \<le> length mem" "c \<in> set (take n (drop a mem))"
  shows "chop_by_c_loop mem c \<lparr>sv_start = Some a, sv_len = n\<rparr>
         = Inr \<lparr>sv_start = Some (a + length (takeWhile (\<lambda>x. x \<noteq> c) (take n (drop a mem)))),
                sv_len = n - length (takeWhile (\<lambda>x. x \<noteq> c) (take n (drop a mem)))\<rparr>"
  using assms
proof (induction n arbitrary: a)
  case 0
  then show ?case by simp
next
  case (Suc n)
  from Suc.prems(1) have a: "a < length mem" by simp
  then have split: "take (Suc n) (drop a mem) = mem ! a # take n (drop (Suc a) mem)"
    by (simp add: take_Suc_conv_app_nth Cons_nth_drop_Suc[symmetric])
  show ?case
  proof (cases "mem ! a = c")
    case True
    with a show ?thesis
      by (subst chop_by_c_loop.simps) (simp add: read_char_def split)
  next
    case False
    with Suc.prems(2) split have in_rest: "c \<in> set (take n (drop (Suc a) mem))" by auto
    then have n: "n \<noteq> 0" by (cases n) auto
    from Suc.prems(1) have "Suc a + n \<le> length mem" by simp
    from Suc.IH[OF this in_rest] False a n show ?thesis
      by (subst chop_by_c_loop.simps) (simp add: read_char_def split ali_sv_step_def)
  qed
qed

lemma take_Suc_takeWhile:
  "c \<in> set xs \<Longrightarrow>
   take (Suc (length (takeWhile (\<lambda>x. x \<noteq> c) xs))) xs = takeWhile (\<lambda>x. x \<noteq> c) xs @ [c]"
  by (induction xs) auto

lemma length_takeWhile_less:
  "c \<in> set xs \<Longrightarrow> length (takeWhile (\<lambda>x. x \<noteq> c) xs) < length xs"
  by (induction xs) auto

lemma ali_sv_chop_by_c_found:
  assumes "a + n \<le> length mem" "c \<in> set (take n (drop a mem))"
  defines "k \<equiv> length (takeWhile (\<lambda>x. x \<noteq> c) (take n (drop a mem)))"
  shows "ali_sv_chop_by_c mem \<lparr>sv_start = Some a, sv_len = n\<rparr> c
         = Inr (\<lparr>sv_start = Some a, sv_len = Suc k\<rparr>,
                \<lparr>sv_start = Some (a + Suc k), sv_len = n - Suc k\<rparr>)"
    and "Suc k \<le> n"
proof -
  from length_takeWhile_less[OF assms(2)] assms(1) show k: "Suc k \<le> n"
    by (simp add: k_def)
  from chop_by_c_loop_found[OF assms(1,2)] k show
    "ali_sv_chop_by_c mem \<lparr>sv_start = Some a, sv_len = n\<rparr> c
         = Inr (\<lparr>sv_start = Some a, sv_len = Suc k\<rparr>,
                \<lparr>sv_start = Some (a + Suc k), sv_len = n - Suc k\<rparr>)"
    by (simp add: ali_sv_chop_by_c_def k_def[symmetric] ali_sv_step_def ptr_diff_def)
qed

lemma abc_calls:
  "ali_sv_from_cstr abc_mem 0 = \<lparr>sv_start = Some 0, sv_len = 5\<rparr>"
  "ali_sv_chop_by_c abc_mem \<lparr>sv_start = Some 0, sv_len = 5\<rparr> CHR '',''
     = Inr (\<lparr>sv_start = Some 0, sv_len = 2\<rparr>, \<lparr>sv_start = Some 2, sv_len = 3\<rparr>)"
  "ali_sv_chop_by_c abc_mem \<lparr>sv_start = Some 2, sv_len = 3\<rparr> CHR '',''
     = Inr (\<lparr>sv_start = Some 2, sv_len = 2\<rparr>, \<lparr>sv_start = Some 4, sv_len = Suc 0\<rparr>)"
  "ali_sv_chop_by_c abc_mem \<lparr>sv_start = Some 4, sv_len = Suc 0\<rparr> CHR '',''
     = Inr (\<lparr>sv_start = Some 4, sv_len = Suc 0\<rparr>, \<lparr>sv_start = Some 5, sv_len = 0\<rparr>)"
  by (simp_all add: ali_sv_chop_by_c_def abc_mem_def ali_sv_from_cstr_def strlen_def
      chop_by_c_loop.simps read_char_def ali_sv_step_def ptr_diff_def)

lemma abc_chars:
  "sv_chars abc_mem \<lparr>sv_start = Some 0, sv_len = 2\<rparr> = ''a,''"
  "sv_chars abc_mem \<lparr>sv_start = Some 2, sv_len = 2\<rparr> = ''b,''"
  "sv_chars abc_mem \<lparr>sv_start = Some 4, sv_len = Suc 0\<rparr> = ''c''"
  "sv_chars abc_mem \<lparr>sv_start = Some 5, sv_len = 0\<rparr> = []"
  by (simp_all add: sv_chars_def abc_mem_def)

text \<open>
  C5, as the code has it. For a view inside \<open>mem\<close> and a character \<open>c\<close> that occurs in it,
  \<^verbatim>\<open>ali_sv_chop_by_c\<close> returns the characters up to and including the first occurrence
  of \<open>c\<close>: the length is computed after the separator has been stepped over, so the
  separator is part of the returned slice. The view is advanced past that occurrence, and
  the returned slice followed by the remainder is the original view. Three calls with
  \<open>,\<close> on \<^verbatim>\<open>"a,b,c"\<close> return \<^verbatim>\<open>"a,"\<close>, \<^verbatim>\<open>"b,"\<close> and \<^verbatim>\<open>"c"\<close> and leave an empty remainder.
\<close>

theorem ali_sv_chop_by_c_keeps_separator:
  "(sv_valid mem sv \<and> c \<in> set (sv_chars mem sv) \<longrightarrow>
      (\<exists>chopped rest. ali_sv_chop_by_c mem sv c = Inr (chopped, rest)
         \<and> sv_chars mem chopped = takeWhile (\<lambda>x. x \<noteq> c) (sv_chars mem sv) @ [c]
         \<and> sv_chars mem sv = sv_chars mem chopped @ sv_chars mem rest
         \<and> sv_valid mem rest))
   \<and> (\<exists>c1 s1 c2 s2 c3 s3.
         ali_sv_chop_by_c abc_mem (ali_sv_from_cstr abc_mem 0) CHR '','' = Inr (c1, s1)
         \<and> ali_sv_chop_by_c abc_mem s1 CHR '','' = Inr (c2, s2)
         \<and> ali_sv_chop_by_c abc_mem s2 CHR '','' = Inr (c3, s3)
         \<and> sv_chars abc_mem c1 = ''a,'' \<and> sv_chars abc_mem c2 = ''b,''
         \<and> sv_chars abc_mem c3 = ''c'' \<and> sv_chars abc_mem s3 = [] \<and> sv_len s3 = 0)"
proof (intro conjI impI)
  assume h: "sv_valid mem sv \<and> c \<in> set (sv_chars mem sv)"
  then obtain a where a: "sv_start sv = Some a" "a + sv_len sv \<le> length mem"
    by (cases "sv_start sv") (auto simp: sv_valid_def)
  define n where "n = sv_len sv"
  have sv: "sv = \<lparr>sv_start = Some a, sv_len = n\<rparr>" using a(1) by (simp add: n_def)
  let ?xs = "take n (drop a mem)"
  define k where "k = length (takeWhile (\<lambda>x. x \<noteq> c) ?xs)"
  from h have c: "c \<in> set ?xs" by (simp add: sv sv_chars_def)
  from a(2) have le: "a + n \<le> length mem" by (simp add: n_def)
  note res = ali_sv_chop_by_c_found[OF le c, folded k_def]
  have chopped: "take (Suc k) (drop a mem) = takeWhile (\<lambda>x. x \<noteq> c) ?xs @ [c]"
  proof -
    have "take (Suc k) (drop a mem) = take (Suc k) ?xs" using res(2) by (simp add: min_def)
    then show ?thesis using take_Suc_takeWhile[OF c] by (simp add: k_def)
  qed
  have rest: "take (n - Suc k) (drop (a + Suc k) mem) = drop (Suc k) ?xs"
    by (simp add: drop_take add.commute)
  have whole: "?xs = take (Suc k) (drop a mem) @ take (n - Suc k) (drop (a + Suc k) mem)"
    unfolding rest using res(2) append_take_drop_id[of "Suc k" ?xs, symmetric]
    by (simp add: min_def)
  show "\<exists>chopped rest. ali_sv_chop_by_c mem sv c = Inr (chopped, rest)
         \<and> sv_chars mem chopped = takeWhile (\<lambda>x. x \<noteq> c) (sv_chars mem sv) @ [c]
         \<and> sv_chars mem sv = sv_chars mem chopped @ sv_chars mem rest
         \<and> sv_valid mem rest"
    apply (rule exI[of _ "\<lparr>sv_start = Some a, sv_len = Suc k\<rparr>"])
    apply (rule exI[of _ "\<lparr>sv_start = Some (a + Suc k), sv_len = n - Suc k\<rparr>"])
    using res le chopped whole
    by (simp add: sv sv_chars_def sv_valid_def del: take_Suc)
next
  show "\<exists>c1 s1 c2 s2 c3 s3.
         ali_sv_chop_by_c abc_mem (ali_sv_from_cstr abc_mem 0) CHR '','' = Inr (c1, s1)
         \<and> ali_sv_chop_by_c abc_mem s1 CHR '','' = Inr (c2, s2)
         \<and> ali_sv_chop_by_c abc_mem s2 CHR '','' = Inr (c3, s3)
         \<and> sv_chars abc_mem c1 = ''a,'' \<and> sv_chars abc_mem c2 = ''b,''
         \<and> sv_chars abc_mem c3 = ''c'' \<and> sv_chars abc_mem s3 = [] \<and> sv_len s3 = 0"
    by (simp add: abc_calls abc_chars)
qed

theorem ali_sv_chop_by_c_keeps_separator_witness:
  "sv_valid abc_mem (ali_sv_from_cstr abc_mem 0)
   \<and> CHR '','' \<in> set (sv_chars abc_mem (ali_sv_from_cstr abc_mem 0))
   \<and> (\<exists>chopped rest.
         ali_sv_chop_by_c abc_mem (ali_sv_from_cstr abc_mem 0) CHR '','' = Inr (chopped, rest)
         \<and> sv_chars abc_mem chopped = ''a,''
         \<and> sv_chars abc_mem rest = ''b,c'')"
proof -
  have v: "sv_valid abc_mem (ali_sv_from_cstr abc_mem 0)"
    and chars: "sv_chars abc_mem (ali_sv_from_cstr abc_mem 0) = ''a,b,c''"
    unfolding abc_calls(1) by (simp_all add: sv_valid_def sv_chars_def abc_mem_def)
  have c: "CHR '','' \<in> set (sv_chars abc_mem (ali_sv_from_cstr abc_mem 0))"
    by (simp add: chars)
  note inst = ali_sv_chop_by_c_keeps_separator
    [of abc_mem "ali_sv_from_cstr abc_mem 0" "CHR '',''", THEN conjunct1, rule_format,
     OF conjI [OF v c], unfolded chars]
  then obtain chopped rest where
    r: "ali_sv_chop_by_c abc_mem (ali_sv_from_cstr abc_mem 0) CHR '','' = Inr (chopped, rest)"
      "sv_chars abc_mem chopped = takeWhile (\<lambda>x. x \<noteq> CHR '','') ''a,b,c'' @ [CHR '','']"
      "''a,b,c'' = sv_chars abc_mem chopped @ sv_chars abc_mem rest"
    by blast
  from r(2) have c1: "sv_chars abc_mem chopped = ''a,''" by simp
  from r(3) have "sv_chars abc_mem rest = ''b,c''" unfolding c1 by simp
  with r(1) c1 v c show ?thesis by blast
qed

text \<open>
  The claim as stated fails at its own example: the first call on \<^verbatim>\<open>"a,b,c"\<close> returns the
  two characters \<^verbatim>\<open>"a,"\<close>, not \<^verbatim>\<open>"a"\<close>.
\<close>

theorem ali_sv_chop_by_c_abc_first_call:
  "map_sum id (\<lambda>(chopped, rest). sv_chars abc_mem chopped)
     (ali_sv_chop_by_c abc_mem (ali_sv_from_cstr abc_mem 0) CHR '','') = Inr ''a,''
   \<and> ''a,'' \<noteq> ''a''"
  by (simp add: abc_calls abc_chars)

subsection \<open>JSON: evaluation on concrete texts\<close>

text \<open>
  \<open>bind_res\<close> is evaluated from its first argument; the equations of the parser are stated
  for a numeral budget.
\<close>

lemma bind_res_cong_weak: "m = m' \<Longrightarrow> bind_res m f = bind_res m' f"
  by simp

lemmas fuel_numeral =
  parse_value_fuel.simps(2) [of "pred_numeral k" for k, folded numeral_eq_Suc]
  parse_object_item_fuel.simps(2) [of "pred_numeral k" for k, folded numeral_eq_Suc]
  parse_object_loop.simps(2) [of "pred_numeral k" for k, folded numeral_eq_Suc]
  parse_array_loop.simps(2) [of "pred_numeral k" for k, folded numeral_eq_Suc]

lemmas json_eval =
  fuel_numeral json_parse_text_def
  json_lexer_parse_value_def parse_fuel_def cstring_def init_state_def json_lexer_def
  json_lexer_trim_left_def json_is_empty_def peek_def lexer_skip_while.simps
  json_lexer_expect_char_def parse_number_def parse_string_def parse_boolean_def
  ignore_false_def strtod_def scan_exponent_def isdigit_def isspace_def isalpha_def digit_val_def
  json_strndup_def json_alloc_def arena_write_def JSON_ARENA_MAX_SIZE_def
  json_array_append_def json_object_append_def sizeof_JsonArrayNode_def sizeof_JsonObjectItem_def
  int_of_ptrdiff_def size_t_of_int_def json_arena_stamp_def json_arena_rewind_def
  strncmp_eq_def cstr_def

lemma walk_nodes_eq:
  "walk_nodes off xs i = (if i < length xs then Ptr (xs ! i) else member_of_null off)"
  by (induction off xs i rule: walk_nodes.induct) auto

text \<open>
  C10, as the code has it. \<^verbatim>\<open>json_array_get_item\<close> and \<^verbatim>\<open>json_object_get_item\<close> take
  the early \<^verbatim>\<open>return NULL\<close> only for an index strictly greater than the stored length,
  and for an index inside the chain the result points at that node's value. For an index
  equal to the length (of a collection whose length field counts its nodes, as the append
  functions keep it) the walk leaves the chain and the result is \<^verbatim>\<open>&cur->value\<close> for the
  null \<^verbatim>\<open>cur\<close>. In \<^verbatim>\<open>json_object_get_item\<close> that is the null pointer advanced by 8
  bytes, an address that is not \<^verbatim>\<open>NULL\<close> and points at no value. In
  \<^verbatim>\<open>json_array_get_item\<close> the member is the first of the node, the address formed is the
  null pointer, and the caller receives \<^verbatim>\<open>NULL\<close>.
\<close>

theorem json_get_item_index_equal_length:
  "json_array_get_item (JsonArray n xs) i
     = (if i > n then Null_ptr else if i < length xs then Ptr (xs ! i) else Null_ptr)
   \<and> json_object_get_item (JsonObject n items) i
     = (if i > n then Null_ptr
        else if i < length items then Ptr (i_value (items ! i)) else Null_plus 8)
   \<and> json_array_get_item (JsonArray (length xs) xs) (length xs) = Null_ptr
   \<and> json_object_get_item (JsonObject (length items) items) (length items) = Null_plus 8"
  by (simp add: json_array_get_item_def json_object_get_item_def walk_nodes_eq
      member_of_null_def offsetof_JsonArrayNode_value_def offsetof_JsonObjectItem_value_def)

text \<open>
  The claim as stated fails for the array: at the index equal to the length the call
  returns \<^verbatim>\<open>NULL\<close>, the absent result.
\<close>

theorem json_array_get_item_at_length_is_null:
  "json_array_get_item (JsonArray 1 [JsonValue JSON_NUMBER (As_number 1)]) 1 = Null_ptr"
  by (simp add: json_array_get_item_def member_of_null_def offsetof_JsonArrayNode_value_def)

text \<open>
  C7. Parsing \<^verbatim>\<open>{"products": [1, 2, 3]}\<close> succeeds with an object of one item, whose key
  \<^verbatim>\<open>products\<close> maps to an array of length 3 holding the numbers 1, 2 and 3;
  \<^verbatim>\<open>json_object_find_value\<close> finds the array, \<^verbatim>\<open>json_array_get_item\<close> finds its three
  elements, and \<^verbatim>\<open>json_stringify\<close> prints them as \<^verbatim>\<open>1.00\<close>, \<^verbatim>\<open>2.00\<close> and \<^verbatim>\<open>3.00\<close>.
\<close>

theorem json_parse_products:
  "json_parse_text products_text
     = Inr (JsonValue JSON_OBJECT (As_object (JsonObject 1
         [JsonObjectItem ''products''
            (JsonValue JSON_ARRAY (As_array (JsonArray 3
               [JsonValue JSON_NUMBER (As_number 1),
                JsonValue JSON_NUMBER (As_number 2),
                JsonValue JSON_NUMBER (As_number 3)])))])))
   \<and> json_object_find_value
         (JsonObject 1
            [JsonObjectItem ''products''
               (JsonValue JSON_ARRAY (As_array (JsonArray 3
                  [JsonValue JSON_NUMBER (As_number 1),
                   JsonValue JSON_NUMBER (As_number 2),
                   JsonValue JSON_NUMBER (As_number 3)])))]) ''products''
     = Some (JsonValue JSON_ARRAY (As_array (JsonArray 3
               [JsonValue JSON_NUMBER (As_number 1),
                JsonValue JSON_NUMBER (As_number 2),
                JsonValue JSON_NUMBER (As_number 3)])))
   \<and> map (json_array_get_item (JsonArray 3
               [JsonValue JSON_NUMBER (As_number 1),
                JsonValue JSON_NUMBER (As_number 2),
                JsonValue JSON_NUMBER (As_number 3)])) [0, 1, 2]
     = [Ptr (JsonValue JSON_NUMBER (As_number 1)),
        Ptr (JsonValue JSON_NUMBER (As_number 2)),
        Ptr (JsonValue JSON_NUMBER (As_number 3))]
   \<and> map json_stringify
         [JsonValue JSON_NUMBER (As_number 1),
          JsonValue JSON_NUMBER (As_number 2),
          JsonValue JSON_NUMBER (As_number 3)]
     = [Inr ''1.00'', Inr ''2.00'', Inr ''3.00'']"
proof -
  have parse: "json_parse_text products_text
     = Inr (JsonValue JSON_OBJECT (As_object (JsonObject 1
         [JsonObjectItem ''products''
            (JsonValue JSON_ARRAY (As_array (JsonArray 3
               [JsonValue JSON_NUMBER (As_number 1),
                JsonValue JSON_NUMBER (As_number 2),
                JsonValue JSON_NUMBER (As_number 3)])))])))"
    by (simp add: json_eval products_text_def cong: bind_res_cong_weak)
  have print: "printf_2lf 1 = ''1.00''" "printf_2lf 2 = ''2.00''" "printf_2lf 3 = ''3.00''"
    by (simp_all add: printf_2lf_def round_half_even_def show_nat.simps digit_char_def Let_def)
  show ?thesis
    by (simp add: parse print json_object_find_value_def strcmp_eq_def cstr_def
        json_array_get_item_def walk_nodes_eq)
qed

text \<open>
  C1. The claim: a value beginning with \<^verbatim>\<open>f\<close> or \<^verbatim>\<open>t\<close> becomes a boolean-typed value that
  is true exactly for the span \<^verbatim>\<open>true\<close>, and \<^verbatim>\<open>{"a": true, "b": "hi"}\<close> parses. In the
  code the scanning loop runs while the character is \<^emph>\<open>not\<close> alphabetic, so it stops at once
  on the \<^verbatim>\<open>t\<close> or \<^verbatim>\<open>f\<close>: the span is empty, the comparison over 0 characters succeeds,
  and the cursor does not move. The tag is overwritten with \<^verbatim>\<open>JSON_STRING\<close>. So the texts
  \<^verbatim>\<open>true\<close> and \<^verbatim>\<open>false\<close> both give a string-typed value holding true, on which
  \<^verbatim>\<open>json_value_as_boolean\<close> returns \<^verbatim>\<open>NULL\<close>, and the object text is rejected with the
  diagnostic for a missing \<^verbatim>\<open>}\<close>, the cursor still on the \<^verbatim>\<open>t\<close>.
\<close>

theorem json_parse_boolean_slips:
  "json_parse_text ab_text = Inl (Unexpected_char CHR ''}'')
   \<and> returned_false (Unexpected_char CHR ''}'')
   \<and> json_parse_text ''true'' = Inr (JsonValue JSON_STRING (As_boolean True))
   \<and> json_parse_text ''false'' = Inr (JsonValue JSON_STRING (As_boolean True))
   \<and> json_value_as_boolean (JsonValue JSON_STRING (As_boolean True)) = None"
proof -
  have "json_parse_text ab_text = Inl (Unexpected_char CHR ''}'')"
    by (simp add: json_eval ab_text_def cong: bind_res_cong_weak)
  moreover have "json_parse_text ''true'' = Inr (JsonValue JSON_STRING (As_boolean True))"
    by (simp add: json_eval cong: bind_res_cong_weak)
  moreover have "json_parse_text ''false'' = Inr (JsonValue JSON_STRING (As_boolean True))"
    by (simp add: json_eval cong: bind_res_cong_weak)
  ultimately show ?thesis by (simp add: json_value_as_boolean_def)
qed

subsection \<open>JSON: what the parser returns\<close>

lemma bind_res_Inr:
  "bind_res m f = Inr y \<longleftrightarrow> (\<exists>x. m = Inr x \<and> f x = Inr y)"
  by (cases m) auto

lemma bind_resE:
  assumes "bind_res m f = Inr y"
  obtains x where "m = Inr x" "f x = Inr y"
  using assms by (auto simp: bind_res_Inr)

lemma well_tagged_nodes_append:
  "well_tagged_nodes (xs @ ys) = (well_tagged_nodes xs \<and> well_tagged_nodes ys)"
  by (induction xs) auto

lemma well_tagged_items_append:
  "well_tagged_items (xs @ ys) = (well_tagged_items xs \<and> well_tagged_items ys)"
proof (induction xs)
  case (Cons x xs)
  then show ?case by (cases x) auto
qed simp

lemma well_tagged_nodes_nth:
  "well_tagged_nodes xs \<Longrightarrow> i < length xs \<Longrightarrow> well_tagged (xs ! i)"
proof (induction xs arbitrary: i)
  case (Cons x xs)
  then show ?case by (cases i) auto
qed simp

lemma well_tagged_find_item:
  "well_tagged_items items \<Longrightarrow> find_item items k = Some p \<Longrightarrow> well_tagged p"
proof (induction items)
  case (Cons x xs)
  then show ?case by (cases x) (auto split: if_splits)
qed simp

lemma well_tagged_stringify:
  "well_tagged v \<Longrightarrow> \<exists>s. json_stringify v = Inr s"
  "well_tagged_nodes vs \<Longrightarrow> \<exists>s. stringify_nodes vs = Inr s"
  "well_tagged_items items \<Longrightarrow> \<exists>s. stringify_items items = Inr s"
  by (induction v and vs and items rule: well_tagged_well_tagged_nodes_well_tagged_items.induct)
     auto

lemma well_tagged_object:
  assumes "well_tagged v" "v_type v = JSON_OBJECT"
  obtains items where "v = JsonValue JSON_OBJECT (As_object (JsonObject (length items) items))"
    "well_tagged_items items"
  using assms by (cases v rule: well_tagged.cases) auto

lemma well_tagged_array:
  assumes "well_tagged v" "v_type v = JSON_ARRAY"
  obtains nodes where "v = JsonValue JSON_ARRAY (As_array (JsonArray (length nodes) nodes))"
    "well_tagged_nodes nodes"
  using assms by (cases v rule: well_tagged.cases) auto

lemma print_products_ok:
  assumes "well_tagged_nodes nodes" "\<forall>i \<in> set idx. i < length nodes"
  shows "\<exists>out'. print_products (JsonArray (length nodes) nodes) idx out = Inr out'"
  using assms
proof (induction idx arbitrary: out)
  case Nil
  then show ?case by simp
next
  case (Cons i idx)
  then have i: "i < length nodes" by simp
  with Cons.prems(1) obtain s where s: "json_stringify (nodes ! i) = Inr s"
    using well_tagged_stringify(1) well_tagged_nodes_nth by blast
  from Cons.IH[of "out @ s @ [CHR 0x0A]"] Cons.prems obtain out' where
    "print_products (JsonArray (length nodes) nodes) idx (out @ s @ [CHR 0x0A]) = Inr out'"
    by auto
  with i s show ?case
    by (simp add: json_array_get_item_def walk_nodes_eq)
qed

lemma skip_while_stops:
  assumes "peek mem lx = Inr c" "\<not> p c"
  shows "lexer_skip_while mem p lx = Inr lx"
  using assms by (subst lexer_skip_while.simps) simp

lemma trim_left_stops:
  assumes "peek mem lx = Inr c" "\<not> isspace c"
  shows "json_lexer_trim_left mem lx = Inr lx"
  using assms by (simp add: json_lexer_trim_left_def skip_while_stops)

lemma expect_char_other:
  assumes "peek mem lx = Inr c" "c \<noteq> d"
  shows "json_lexer_expect_char mem lx d \<noteq> Inr lx'"
  using assms by (simp add: json_lexer_expect_char_def)

lemma not_space_ft: "\<not> isspace CHR ''f''" "\<not> isspace CHR ''t''"
  by (simp_all add: isspace_def)

lemma isalpha_ft: "isalpha CHR ''f''" "isalpha CHR ''t''"
  by (simp_all add: isalpha_def)

lemma close_fails_at_bool:
  assumes "bind_res (json_lexer_trim_left mem (lexer st))
             (\<lambda>lx3. bind_res (json_lexer_expect_char mem lx3 d) g) = Inr r"
    and "d \<noteq> CHR ''f''" "d \<noteq> CHR ''t''"
  shows "\<not> at_bool mem st"
proof
  assume "at_bool mem st"
  then obtain c where c: "peek mem (lexer st) = Inr c" "c = CHR ''f'' \<or> c = CHR ''t''"
    by (auto simp: at_bool_def)
  then have "json_lexer_trim_left mem (lexer st) = Inr (lexer st)"
    using not_space_ft by (auto intro: trim_left_stops)
  moreover from c assms(2,3) have "\<And>lx'. json_lexer_expect_char mem (lexer st) d \<noteq> Inr lx'"
    using expect_char_other[of mem "lexer st" c d] by auto
  ultimately show False using assms(1) by (auto simp: bind_res_Inr)
qed

lemma parse_number_well_tagged:
  "parse_number mem st = Inr (v, st') \<Longrightarrow> well_tagged v"
  by (auto simp: parse_number_def split: option.splits)

lemma parse_string_well_tagged:
  "parse_string mem st = Inr (v, st') \<Longrightarrow> well_tagged v"
  by (auto simp: parse_string_def Let_def bind_res_Inr)

lemma parse_boolean_slip:
  assumes "parse_boolean mem st = Inr (v, st')" "at_bool mem st"
  shows "bool_slip v \<and> at_bool mem st'"
proof -
  from assms(2) obtain c where c: "peek mem (lexer st) = Inr c" "isalpha c"
    using isalpha_ft by (auto simp: at_bool_def)
  then have "lexer_skip_while mem (\<lambda>c. \<not> isalpha c) (lexer st) = Inr (lexer st)"
    by (intro skip_while_stops) auto
  with assms show ?thesis
    by (auto simp: parse_boolean_def Let_def bind_res_Inr bool_slip_def at_bool_def)
qed

lemma well_tagged_items_single: "well_tagged_items [item] = well_tagged (i_value item)"
  by (cases item) simp

lemma array_append_well_tagged:
  assumes "json_array_append arena (JsonArray (length xs) xs) v = Inr (array', arena')"
  shows "array' = JsonArray (length (xs @ [v])) (xs @ [v])"
  using assms by (auto simp: json_array_append_def json_alloc_def bind_res_Inr)

lemma object_append_well_tagged:
  assumes "json_object_append arena (JsonObject (length xs) xs) k v = Inr (object', arena')"
  shows "object' = JsonObject (length (xs @ [JsonObjectItem k v])) (xs @ [JsonObjectItem k v])"
  using assms by (auto simp: json_object_append_def json_alloc_def bind_res_Inr)

text \<open>
  Every value the parser returns is well tagged, or it is the value of the branch for
  \<^verbatim>\<open>f\<close> and \<^verbatim>\<open>t\<close> and the cursor still stands on that character. A loop that returns
  with the cursor there is followed by the check for the closing bracket, which fails.
\<close>

lemma parse_fuel_well_tagged:
  "(\<forall>st v st'. parse_value_fuel n mem st = Inr (v, st') \<longrightarrow>
       well_tagged v \<or> (bool_slip v \<and> at_bool mem st'))
   \<and> (\<forall>st item st'. parse_object_item_fuel n mem st = Inr (item, st') \<longrightarrow>
       well_tagged (i_value item) \<or> at_bool mem st')
   \<and> (\<forall>st xs object' st'.
         parse_object_loop n mem st (JsonObject (length xs) xs) = Inr (object', st') \<longrightarrow>
         well_tagged_items xs \<longrightarrow>
         (\<exists>ys. object' = JsonObject (length ys) ys \<and> well_tagged_items ys) \<or> at_bool mem st')
   \<and> (\<forall>st xs array' st'.
         parse_array_loop n mem st (JsonArray (length xs) xs) = Inr (array', st') \<longrightarrow>
         well_tagged_nodes xs \<longrightarrow>
         (\<exists>ys. array' = JsonArray (length ys) ys \<and> well_tagged_nodes ys) \<or> at_bool mem st')"
proof (induction n)
  case 0
  show ?case by simp
next
  case (Suc n)
  note IHv = Suc.IH[THEN conjunct1, rule_format]
  note IHi = Suc.IH[THEN conjunct2, THEN conjunct1, rule_format]
  note IHo = Suc.IH[THEN conjunct2, THEN conjunct2, THEN conjunct1, rule_format]
  note IHa = Suc.IH[THEN conjunct2, THEN conjunct2, THEN conjunct2, rule_format]
  have pv: "well_tagged v \<or> (bool_slip v \<and> at_bool mem st')"
    if h: "parse_value_fuel (Suc n) mem st = Inr (v, st')" for st v st'
  proof -
    from h obtain lx c where lx: "json_lexer_trim_left mem (lexer st) = Inr lx"
      and c: "peek mem lx = Inr c"
      and body: "(if isdigit c \<or> c = CHR ''.'' then parse_number mem (st\<lparr>lexer := lx\<rparr>)
       else if c = CHR 0x22 then parse_string mem (st\<lparr>lexer := lx\<rparr>)
       else if c = CHR ''f'' \<or> c = CHR ''t'' then parse_boolean mem (st\<lparr>lexer := lx\<rparr>)
       else if c = CHR ''{'' then
         bind_res (ignore_false lx (json_lexer_expect_char mem lx CHR ''{'')) (\<lambda>lx1.
         bind_res (parse_object_loop n mem (st\<lparr>lexer := lx1\<rparr>) (JsonObject 0 [])) (\<lambda>(object, st2).
         bind_res (json_lexer_trim_left mem (lexer st2)) (\<lambda>lx3.
         bind_res (json_lexer_expect_char mem lx3 CHR ''}'') (\<lambda>lx4.
           Inr (JsonValue JSON_OBJECT (As_object object), st2\<lparr>lexer := lx4\<rparr>)))))
       else if c = CHR ''['' then
         bind_res (json_lexer_expect_char mem lx CHR ''['') (\<lambda>lx1.
         bind_res (parse_array_loop n mem (st\<lparr>lexer := lx1\<rparr>) (JsonArray 0 [])) (\<lambda>(array, st2).
         bind_res (json_lexer_trim_left mem (lexer st2)) (\<lambda>lx3.
         bind_res (json_lexer_expect_char mem lx3 CHR '']'') (\<lambda>lx4.
           Inr (JsonValue JSON_ARRAY (As_array array), st2\<lparr>lexer := lx4\<rparr>)))))
       else Inl (Unexpected_char c)) = Inr (v, st')"
      by (auto simp: bind_res_Inr)
    consider (num) "isdigit c \<or> c = CHR ''.''" "parse_number mem (st\<lparr>lexer := lx\<rparr>) = Inr (v, st')"
      | (str) "parse_string mem (st\<lparr>lexer := lx\<rparr>) = Inr (v, st')"
      | (bool) "c = CHR ''f'' \<or> c = CHR ''t''" "parse_boolean mem (st\<lparr>lexer := lx\<rparr>) = Inr (v, st')"
      | (obj) "c = CHR ''{''"
          "bind_res (ignore_false lx (json_lexer_expect_char mem lx CHR ''{'')) (\<lambda>lx1.
           bind_res (parse_object_loop n mem (st\<lparr>lexer := lx1\<rparr>) (JsonObject 0 [])) (\<lambda>(object, st2).
           bind_res (json_lexer_trim_left mem (lexer st2)) (\<lambda>lx3.
           bind_res (json_lexer_expect_char mem lx3 CHR ''}'') (\<lambda>lx4.
             Inr (JsonValue JSON_OBJECT (As_object object), st2\<lparr>lexer := lx4\<rparr>))))) = Inr (v, st')"
      | (arr) "c = CHR ''[''"
          "bind_res (json_lexer_expect_char mem lx CHR ''['') (\<lambda>lx1.
           bind_res (parse_array_loop n mem (st\<lparr>lexer := lx1\<rparr>) (JsonArray 0 [])) (\<lambda>(array, st2).
           bind_res (json_lexer_trim_left mem (lexer st2)) (\<lambda>lx3.
           bind_res (json_lexer_expect_char mem lx3 CHR '']'') (\<lambda>lx4.
             Inr (JsonValue JSON_ARRAY (As_array array), st2\<lparr>lexer := lx4\<rparr>))))) = Inr (v, st')"
      using body by (auto split: if_splits)
    then show ?thesis
    proof cases
      case num
      then show ?thesis using parse_number_well_tagged by blast
    next
      case str
      then show ?thesis using parse_string_well_tagged by blast
    next
      case bool
      with c have "at_bool mem (st\<lparr>lexer := lx\<rparr>)" by (auto simp: at_bool_def)
      with bool(2) show ?thesis using parse_boolean_slip by blast
    next
      case obj
      from obj(2) obtain lx1 object st2 where
        loop: "parse_object_loop n mem (st\<lparr>lexer := lx1\<rparr>) (JsonObject (length ([] :: JsonValue JsonObjectItem list)) []) = Inr (object, st2)"
        and close: "bind_res (json_lexer_trim_left mem (lexer st2)) (\<lambda>lx3.
           bind_res (json_lexer_expect_char mem lx3 CHR ''}'') (\<lambda>lx4.
             Inr (JsonValue JSON_OBJECT (As_object object), st2\<lparr>lexer := lx4\<rparr>))) = Inr (v, st')"
        by (auto simp: bind_res_Inr)
      from close_fails_at_bool[OF close] have "\<not> at_bool mem st2" by simp
      with IHo[OF loop] obtain ys where "object = JsonObject (length ys) ys" "well_tagged_items ys"
        by auto
      with close show ?thesis by (auto simp: bind_res_Inr)
    next
      case arr
      from arr(2) obtain lx1 array st2 where
        loop: "parse_array_loop n mem (st\<lparr>lexer := lx1\<rparr>) (JsonArray (length ([] :: JsonValue list)) []) = Inr (array, st2)"
        and close: "bind_res (json_lexer_trim_left mem (lexer st2)) (\<lambda>lx3.
           bind_res (json_lexer_expect_char mem lx3 CHR '']'') (\<lambda>lx4.
             Inr (JsonValue JSON_ARRAY (As_array array), st2\<lparr>lexer := lx4\<rparr>))) = Inr (v, st')"
        by (auto simp: bind_res_Inr)
      from close_fails_at_bool[OF close] have "\<not> at_bool mem st2" by simp
      with IHa[OF loop] obtain ys where "array = JsonArray (length ys) ys" "well_tagged_nodes ys"
        by auto
      with close show ?thesis by (auto simp: bind_res_Inr)
    qed
  qed
  have pitem: "well_tagged (i_value item) \<or> at_bool mem st'"
    if h: "parse_object_item_fuel (Suc n) mem st = Inr (item, st')" for st item st'
  proof -
    from h obtain st4 k v where "parse_value_fuel n mem st4 = Inr (v, st')" "item = JsonObjectItem k v"
      by (auto simp: bind_res_Inr)
    with IHv show ?thesis by auto
  qed
  have objects: "(\<exists>ys. object' = JsonObject (length ys) ys \<and> well_tagged_items ys) \<or> at_bool mem st'"
    if h: "parse_object_loop (Suc n) mem st (JsonObject (length xs) xs) = Inr (object', st')"
      and wt: "well_tagged_items xs" for st xs object' st'
  proof (cases "json_is_empty (lexer st)")
    case True
    with h wt show ?thesis by auto
  next
    case False
    with h obtain item st1 object1 arena1 c where
      it: "parse_object_item_fuel n mem st = Inr (item, st1)"
      and app: "json_object_append (json_arena_size st1) (JsonObject (length xs) xs)
                  (i_key item) (i_value item) = Inr (object1, arena1)"
      and c: "peek mem (lexer st1) = Inr c"
      and rest: "(if c = CHR '','' then
            bind_res (json_lexer_expect_char mem (lexer st1) CHR '','') (\<lambda>lx2.
              parse_object_loop n mem \<lparr>lexer = lx2, json_arena_size = arena1\<rparr> object1)
          else Inr (object1, st1\<lparr>json_arena_size := arena1\<rparr>)) = Inr (object', st')"
      by (auto simp: bind_res_Inr)
    let ?ys = "xs @ [JsonObjectItem (i_key item) (i_value item)]"
    from object_append_well_tagged[OF app] have o1: "object1 = JsonObject (length ?ys) ?ys" .
    from IHi[OF it] have alt: "well_tagged (i_value item) \<or> at_bool mem st1" .
    show ?thesis
    proof (cases "c = CHR '',''")
      case True
      with c have "\<not> at_bool mem st1" by (simp add: at_bool_def)
      with alt wt have wt': "well_tagged_items ?ys"
        by (simp add: well_tagged_items_append well_tagged_items_single)
      from rest True obtain lx2 where
        "parse_object_loop n mem \<lparr>lexer = lx2, json_arena_size = arena1\<rparr> (JsonObject (length ?ys) ?ys)
           = Inr (object', st')"
        by (auto simp: bind_res_Inr o1)
      from IHo[OF this wt'] show ?thesis .
    next
      case False
      with rest have r: "object' = object1" "st' = st1\<lparr>json_arena_size := arena1\<rparr>" by auto
      from alt show ?thesis
      proof
        assume "well_tagged (i_value item)"
        with wt have "well_tagged_items ?ys"
          by (simp add: well_tagged_items_append well_tagged_items_single)
        with r o1 show ?thesis by blast
      next
        assume "at_bool mem st1"
        with r show ?thesis by (simp add: at_bool_def)
      qed
    qed
  qed
  have arrays: "(\<exists>ys. array' = JsonArray (length ys) ys \<and> well_tagged_nodes ys) \<or> at_bool mem st'"
    if h: "parse_array_loop (Suc n) mem st (JsonArray (length xs) xs) = Inr (array', st')"
      and wt: "well_tagged_nodes xs" for st xs array' st'
  proof (cases "json_is_empty (lexer st)")
    case True
    with h wt show ?thesis by auto
  next
    case False
    with h obtain v st1 array1 arena1 c where
      it: "parse_value_fuel n mem st = Inr (v, st1)"
      and app: "json_array_append (json_arena_size st1) (JsonArray (length xs) xs) v
                  = Inr (array1, arena1)"
      and c: "peek mem (lexer st1) = Inr c"
      and rest: "(if c = CHR '','' then
            bind_res (json_lexer_expect_char mem (lexer st1) CHR '','') (\<lambda>lx2.
              parse_array_loop n mem \<lparr>lexer = lx2, json_arena_size = arena1\<rparr> array1)
          else Inr (array1, st1\<lparr>json_arena_size := arena1\<rparr>)) = Inr (array', st')"
      by (auto simp: bind_res_Inr)
    let ?ys = "xs @ [v]"
    from array_append_well_tagged[OF app] have o1: "array1 = JsonArray (length ?ys) ?ys" .
    from IHv[OF it] have alt: "well_tagged v \<or> at_bool mem st1" by auto
    show ?thesis
    proof (cases "c = CHR '',''")
      case True
      with c have "\<not> at_bool mem st1" by (simp add: at_bool_def)
      with alt wt have wt': "well_tagged_nodes ?ys" by (simp add: well_tagged_nodes_append)
      from rest True obtain lx2 where
        "parse_array_loop n mem \<lparr>lexer = lx2, json_arena_size = arena1\<rparr> (JsonArray (length ?ys) ?ys)
           = Inr (array', st')"
        by (auto simp: bind_res_Inr o1)
      from IHa[OF this wt'] show ?thesis .
    next
      case False
      with rest have r: "array' = array1" "st' = st1\<lparr>json_arena_size := arena1\<rparr>" by auto
      from alt show ?thesis
      proof
        assume "well_tagged v"
        with wt have "well_tagged_nodes ?ys" by (simp add: well_tagged_nodes_append)
        with r o1 show ?thesis by blast
      next
        assume "at_bool mem st1"
        with r show ?thesis by (simp add: at_bool_def)
      qed
    qed
  qed
  from pv pitem objects arrays show ?case by blast
qed

lemma json_lexer_parse_value_well_tagged:
  assumes "json_lexer_parse_value mem st = Inr (v, st')"
  shows "well_tagged v \<or> bool_slip v"
  using assms parse_fuel_well_tagged[of "parse_fuel mem st" mem, THEN conjunct1, rule_format, of st v st']
  by (auto simp: json_lexer_parse_value_def)

subsection \<open>The demonstration program\<close>

lemma da_grow_gt: "cnt + to_add < da_grow cnt to_add cap"
proof (induction cnt to_add cap rule: da_grow.induct)
  case (1 cnt to_add cap)
  show ?case
  proof (cases "cnt + to_add \<ge> cap")
    case True
    with 1 show ?thesis by (subst da_grow.simps) simp
  next
    case False
    then show ?thesis by (subst da_grow.simps) simp
  qed
qed

lemma ali_sb_read_file_missing:
  assumes "fs path = Inl err"
  shows "ali_sb_read_file ali_log_init fs garbage sb path = (False, sb, g') \<Longrightarrow> written g' Stdout = []"
  using assms
  by (auto simp: ali_sb_read_file_def ali_log_error_def ali_log_log_written ali_log_init_def)

lemma ali_sb_read_file_ok:
  assumes "fs path = Inr bytes"
  shows "ali_sb_read_file g fs garbage \<lparr>sb_data = [], sb_count = 0, sb_capacity = 0\<rparr> path
         = (True, \<lparr>sb_data = file_buffer garbage bytes, sb_count = length bytes,
                   sb_capacity = da_grow 0 (length bytes) 0\<rparr>, g)"
proof -
  have "length bytes < da_grow 0 (length bytes) 0" using da_grow_gt[of 0 "length bytes" 0] by simp
  then have "drop (length bytes) (map garbage [0..<da_grow 0 (length bytes) 0])
             = map garbage [length bytes..<da_grow 0 (length bytes) 0]"
    by (simp add: drop_map)
  then show ?thesis
    using assms by (simp add: ali_sb_read_file_def ali_sb_maybe_resize_def Let_def file_buffer_def)
qed

lemma main_missing:
  assumes "fs ''products.json'' = Inl err"
  shows "main fs garbage = Inr (1, [])"
  using assms
  by (simp add: main_def ali_sb_read_file_def ali_log_error_def ali_log_log_written ali_log_init_def)

lemma main_readable:
  assumes "fs ''products.json'' = Inr bytes"
  shows "main fs garbage =
     (case parse_file garbage bytes of
        Inl e \<Rightarrow> if returned_false e then Inr (1, []) else Inl e
      | Inr (v, st) \<Rightarrow>
          (case json_value_as_object v of
             None \<Rightarrow> Inr (1, [])
           | Some value_as_object \<Rightarrow>
               bind_res (read_object value_as_object) (\<lambda>object.
                 case json_object_find_value object ''products'' of
                   None \<Rightarrow> Inr (1, [])
                 | Some products_json \<Rightarrow>
                     (case json_value_as_array products_json of
                        None \<Rightarrow> Inr (1, [])
                      | Some products_ptr \<Rightarrow>
                          bind_res (read_array products_ptr) (\<lambda>products.
                          bind_res (print_products products [0..<a_len products] []) (\<lambda>out.
                            Inr (0, out)))))))"
  by (simp add: main_def ali_sb_read_file_ok[where fs=fs, OF assms] parse_file_def file_state_def
      ali_log_init_def cong del: sum.case_cong_weak option.case_cong_weak if_weak_cong)

lemma parse_file_object:
  assumes "parse_file garbage bytes = Inr (v, st)" "json_value_as_object v = Some u"
  obtains items where "u = As_object (JsonObject (length items) items)" "well_tagged_items items"
proof -
  from assms(2) have t: "v_type v = JSON_OBJECT" "u = v_as v"
    by (auto simp: json_value_as_object_def split: if_splits)
  from assms(1) have "well_tagged v \<or> bool_slip v"
    unfolding parse_file_def by (rule json_lexer_parse_value_well_tagged)
  with t have "well_tagged v" by (auto simp: bool_slip_def)
  from well_tagged_object[OF this t(1)] obtain items where
    "v = JsonValue JSON_OBJECT (As_object (JsonObject (length items) items))"
    "well_tagged_items items" by blast
  with t(2) show ?thesis by (intro that[of items]) simp_all
qed

lemma main_array:
  assumes "fs ''products.json'' = Inr bytes" "parse_file garbage bytes = Inr (v, st)"
    "json_value_as_object v = Some (As_object object)"
    "json_object_find_value object ''products'' = Some p"
    "json_value_as_array p = Some a"
  shows "\<exists>out. main fs garbage = Inr (0, out)"
proof -
  from parse_file_object[OF assms(2,3)] obtain items where
    items: "object = JsonObject (length items) items" "well_tagged_items items" by auto
  from assms(4) items have "well_tagged p"
    by (auto simp: json_object_find_value_def split: if_splits intro: well_tagged_find_item)
  moreover from assms(5) have t: "v_type p = JSON_ARRAY" "a = v_as p"
    by (auto simp: json_value_as_array_def split: if_splits)
  ultimately obtain nodes where
    nodes: "p = JsonValue JSON_ARRAY (As_array (JsonArray (length nodes) nodes))"
      "well_tagged_nodes nodes"
    by (auto elim: well_tagged_array)
  from print_products_ok[OF nodes(2), of "[0..<length nodes]" "[]"] obtain out where
    "print_products (JsonArray (length nodes) nodes) [0..<length nodes] [] = Inr out" by auto
  with assms t nodes show ?thesis
    by (simp add: main_readable[where fs=fs and garbage=garbage, OF assms(1)])
qed

text \<open>
  C8. \<^verbatim>\<open>main\<close> returns 0 exactly when \<^verbatim>\<open>products.json\<close> can be read, the parser
  returns \<^verbatim>\<open>true\<close> on its contents, the value is an object, the object has the key
  \<^verbatim>\<open>products\<close>, and the value found is an array. In each of the five failure cases it
  returns 1: the file cannot be opened; the parser returns \<^verbatim>\<open>false\<close>; the value is not
  an object; the key is missing; the value found is not an array. (When the tag of the
  parsed value is \<^verbatim>\<open>JSON_OBJECT\<close> the union holds an object, so the cases are all the
  cases in which the parser returns.)
\<close>

theorem main_exit_code:
  "((\<exists>out. main fs garbage = Inr (0, out)) \<longleftrightarrow>
      (\<exists>bytes v st object p a.
         fs ''products.json'' = Inr bytes
         \<and> parse_file garbage bytes = Inr (v, st)
         \<and> json_value_as_object v = Some (As_object object)
         \<and> json_object_find_value object ''products'' = Some p
         \<and> json_value_as_array p = Some a))
   \<and> ((\<exists>err. fs ''products.json'' = Inl err) \<longrightarrow> (\<exists>out. main fs garbage = Inr (1, out)))
   \<and> (\<forall>bytes. fs ''products.json'' = Inr bytes \<longrightarrow>
        (\<forall>e. parse_file garbage bytes = Inl e \<and> returned_false e \<longrightarrow>
           (\<exists>out. main fs garbage = Inr (1, out)))
        \<and> (\<forall>v st. parse_file garbage bytes = Inr (v, st) \<longrightarrow>
             (json_value_as_object v = None \<longrightarrow> (\<exists>out. main fs garbage = Inr (1, out)))
             \<and> (\<forall>u. json_value_as_object v = Some u \<longrightarrow>
                  (\<exists>object. u = As_object object
                     \<and> (json_object_find_value object ''products'' = None \<longrightarrow>
                          (\<exists>out. main fs garbage = Inr (1, out)))
                     \<and> (\<forall>p. json_object_find_value object ''products'' = Some p
                              \<and> json_value_as_array p = None \<longrightarrow>
                          (\<exists>out. main fs garbage = Inr (1, out)))))))"
proof (intro conjI allI impI)
  show "(\<exists>out. main fs garbage = Inr (0, out)) \<longleftrightarrow>
      (\<exists>bytes v st object p a.
         fs ''products.json'' = Inr bytes
         \<and> parse_file garbage bytes = Inr (v, st)
         \<and> json_value_as_object v = Some (As_object object)
         \<and> json_object_find_value object ''products'' = Some p
         \<and> json_value_as_array p = Some a)" (is "?L \<longleftrightarrow> ?R")
  proof
    assume ?L
    then obtain out where m: "main fs garbage = Inr (0, out)" by blast
    show ?R
    proof (cases "fs ''products.json''")
      case (Inl err)
      from main_missing[where fs=fs and garbage=garbage, OF this] m show ?thesis by simp
    next
      case (Inr bytes)
      from m[unfolded main_readable[where fs=fs and garbage=garbage, OF Inr]] obtain v st where
        p: "parse_file garbage bytes = Inr (v, st)"
        by (cases "parse_file garbage bytes") (auto split: if_splits)
      from m[unfolded main_readable[where fs=fs and garbage=garbage, OF Inr] p] obtain u where
        u: "json_value_as_object v = Some u"
        by (cases "json_value_as_object v") auto
      from parse_file_object[OF p u] obtain items where
        items: "u = As_object (JsonObject (length items) items)" by auto
      from m[unfolded main_readable[where fs=fs and garbage=garbage, OF Inr] p] u items obtain q where
        q: "json_object_find_value (JsonObject (length items) items) ''products'' = Some q"
        by (cases "json_object_find_value (JsonObject (length items) items) ''products''") auto
      from m[unfolded main_readable[where fs=fs and garbage=garbage, OF Inr] p] u items q obtain a where
        "json_value_as_array q = Some a"
        by (cases "json_value_as_array q") auto
      with Inr p u items q show ?thesis by blast
    qed
  next
    assume ?R
    then obtain bytes v st object p a where
      "fs ''products.json'' = Inr bytes" "parse_file garbage bytes = Inr (v, st)"
      "json_value_as_object v = Some (As_object object)"
      "json_object_find_value object ''products'' = Some p"
      "json_value_as_array p = Some a" by blast
    then show ?L by (rule main_array[where fs=fs])
  qed
next
  assume "\<exists>err. fs ''products.json'' = Inl err"
  then obtain err where "fs ''products.json'' = Inl err" by blast
  from main_missing[where fs=fs and garbage=garbage, OF this]
  show "\<exists>out. main fs garbage = Inr (1, out)" by simp
next
  fix bytes e
  assume a: "fs ''products.json'' = Inr bytes" "parse_file garbage bytes = Inl e \<and> returned_false e"
  then show "\<exists>out. main fs garbage = Inr (1, out)"
    by (simp add: main_readable[where fs=fs and garbage=garbage, OF a(1)])
next
  fix bytes v st
  assume a: "fs ''products.json'' = Inr bytes" "parse_file garbage bytes = Inr (v, st)"
    "json_value_as_object v = None"
  then show "\<exists>out. main fs garbage = Inr (1, out)"
    by (simp add: main_readable[where fs=fs and garbage=garbage, OF a(1)])
next
  fix bytes v st u
  assume a: "fs ''products.json'' = Inr bytes" "parse_file garbage bytes = Inr (v, st)"
    "json_value_as_object v = Some u"
  from parse_file_object[OF a(2,3)] obtain items where
    items: "u = As_object (JsonObject (length items) items)" by auto
  show "\<exists>object. u = As_object object
          \<and> (json_object_find_value object ''products'' = None \<longrightarrow>
               (\<exists>out. main fs garbage = Inr (1, out)))
          \<and> (\<forall>p. json_object_find_value object ''products'' = Some p
                   \<and> json_value_as_array p = None \<longrightarrow>
               (\<exists>out. main fs garbage = Inr (1, out)))"
    using a(2,3) items
    by (auto simp: main_readable[where fs=fs and garbage=garbage, OF a(1)])
qed

lemmas file_eval =
  parse_file_def file_buffer_def file_state_def zeros_def da_grow.simps
  ALI_DA_DEFAULT_INIT_CAPACITY_def fs_with_def fs_none_def

lemma parse_file_examples:
  "parse_file zeros products_text
     = Inr (JsonValue JSON_OBJECT (As_object (JsonObject 1
         [JsonObjectItem ''products''
            (JsonValue JSON_ARRAY (As_array (JsonArray 3
               [JsonValue JSON_NUMBER (As_number 1),
                JsonValue JSON_NUMBER (As_number 2),
                JsonValue JSON_NUMBER (As_number 3)])))])),
            \<lparr>lexer = \<lparr>content_start = 0, content_len = 23, cursor = 23\<rparr>,
              json_arena_size = 145\<rparr>)"
  "parse_file zeros '']'' = Inl (Unexpected_char CHR '']'')"
  "parse_file zeros ''[1]''
     = Inr (JsonValue JSON_ARRAY (As_array (JsonArray 1 [JsonValue JSON_NUMBER (As_number 1)])),
            \<lparr>lexer = \<lparr>content_start = 0, content_len = 3, cursor = 3\<rparr>, json_arena_size = 32\<rparr>)"
  "parse_file zeros no_products_text
     = Inr (JsonValue JSON_OBJECT (As_object (JsonObject 1
              [JsonObjectItem ''a'' (JsonValue JSON_NUMBER (As_number 1))])),
            \<lparr>lexer = \<lparr>content_start = 0, content_len = 8, cursor = 8\<rparr>, json_arena_size = 42\<rparr>)"
  "parse_file zeros products_number_text
     = Inr (JsonValue JSON_OBJECT (As_object (JsonObject 1
              [JsonObjectItem ''products'' (JsonValue JSON_NUMBER (As_number 1))])),
            \<lparr>lexer = \<lparr>content_start = 0, content_len = 15, cursor = 15\<rparr>, json_arena_size = 49\<rparr>)"
  by (simp_all add: json_eval file_eval products_text_def no_products_text_def
      products_number_text_def cong: bind_res_cong_weak)


lemma lookup_examples:
  "json_object_find_value
     (JsonObject (Suc 0)
        [JsonObjectItem ''products''
           (JsonValue JSON_ARRAY (As_array (JsonArray 3
              [JsonValue JSON_NUMBER (As_number 1),
               JsonValue JSON_NUMBER (As_number 2),
               JsonValue JSON_NUMBER (As_number 3)])))]) ''products''
   = Some (JsonValue JSON_ARRAY (As_array (JsonArray 3
              [JsonValue JSON_NUMBER (As_number 1),
               JsonValue JSON_NUMBER (As_number 2),
               JsonValue JSON_NUMBER (As_number 3)])))"
  "json_object_find_value
     (JsonObject (Suc 0) [JsonObjectItem ''a'' (JsonValue JSON_NUMBER (As_number 1))]) ''products'' = None"
  "json_object_find_value
     (JsonObject (Suc 0) [JsonObjectItem ''products'' (JsonValue JSON_NUMBER (As_number 1))]) ''products''
   = Some (JsonValue JSON_NUMBER (As_number 1))"
  by (simp_all add: json_object_find_value_def strcmp_eq_def cstr_def)

theorem main_exit_code_witness:
  "(\<exists>out. main (fs_with products_text) zeros = Inr (0, out))
   \<and> (\<exists>out. main fs_none zeros = Inr (1, out))
   \<and> (\<exists>out. main (fs_with '']'') zeros = Inr (1, out))
   \<and> (\<exists>out. main (fs_with ''[1]'') zeros = Inr (1, out))
   \<and> (\<exists>out. main (fs_with no_products_text) zeros = Inr (1, out))
   \<and> (\<exists>out. main (fs_with products_number_text) zeros = Inr (1, out))"
proof (intro conjI)
  have fs: "\<And>bytes. fs_with bytes ''products.json'' = Inr bytes"
    by (simp add: fs_with_def)
  note obj = json_value_as_object_def
  note arr = json_value_as_array_def
  show "\<exists>out. main (fs_with products_text) zeros = Inr (0, out)"
  proof -
    have "\<exists>bytes v st object p a.
         fs_with products_text ''products.json'' = Inr bytes
         \<and> parse_file zeros bytes = Inr (v, st)
         \<and> json_value_as_object v = Some (As_object object)
         \<and> json_object_find_value object ''products'' = Some p
         \<and> json_value_as_array p = Some a"
      using fs[of products_text] parse_file_examples(1) lookup_examples(1)
      by (simp add: obj arr)
    with main_exit_code[of "fs_with products_text" zeros, THEN conjunct1] show ?thesis
      by (rule iffD2)
  qed
  show "\<exists>out. main fs_none zeros = Inr (1, out)"
  proof -
    have "\<exists>err. fs_none ''products.json'' = Inl err" by (simp add: fs_none_def)
    with main_exit_code[of fs_none zeros, THEN conjunct2, THEN conjunct1] show ?thesis
      by (rule mp)
  qed
  show "\<exists>out. main (fs_with '']'') zeros = Inr (1, out)"
    using main_exit_code[of "fs_with '']''" zeros, THEN conjunct2, THEN conjunct2,
        THEN spec, of "'']''", THEN mp, OF fs, THEN conjunct1,
        THEN spec, of "Unexpected_char CHR '']''"]
      parse_file_examples(2)
    by simp
  show "\<exists>out. main (fs_with ''[1]'') zeros = Inr (1, out)"
    using main_exit_code[of "fs_with ''[1]''" zeros, THEN conjunct2, THEN conjunct2,
        THEN spec, of "''[1]''", THEN mp, OF fs, THEN conjunct2,
        THEN spec, THEN spec, THEN mp, OF parse_file_examples(3), THEN conjunct1]
    by (simp add: obj)
  show "\<exists>out. main (fs_with no_products_text) zeros = Inr (1, out)"
    using main_exit_code[of "fs_with no_products_text" zeros, THEN conjunct2, THEN conjunct2,
        THEN spec, of no_products_text, THEN mp, OF fs, THEN conjunct2,
        THEN spec, THEN spec, THEN mp, OF parse_file_examples(4), THEN conjunct2,
        THEN spec,
        of "As_object (JsonObject 1 [JsonObjectItem ''a'' (JsonValue JSON_NUMBER (As_number 1))])"]
      lookup_examples(2)
    by (auto simp: obj)
  show "\<exists>out. main (fs_with products_number_text) zeros = Inr (1, out)"
    using main_exit_code[of "fs_with products_number_text" zeros, THEN conjunct2, THEN conjunct2,
        THEN spec, of products_number_text, THEN mp, OF fs, THEN conjunct2,
        THEN spec, THEN spec, THEN mp, OF parse_file_examples(5), THEN conjunct2,
        THEN spec,
        of "As_object (JsonObject 1
              [JsonObjectItem ''products'' (JsonValue JSON_NUMBER (As_number 1))])"]
      lookup_examples(3)
    by (auto simp: obj arr)
qed

lemma main_prints_products:
  "main (fs_with products_text) zeros
   = Inr (0, ''1.00'' @ [CHR 0x0A] @ ''2.00'' @ [CHR 0x0A] @ ''3.00'' @ [CHR 0x0A])"
proof -
  have print: "printf_2lf 1 = ''1.00''" "printf_2lf 2 = ''2.00''" "printf_2lf 3 = ''3.00''"
    by (simp_all add: printf_2lf_def round_half_even_def show_nat.simps digit_char_def Let_def)
  have idx: "[0..<3] = [0, 1, 2]" by (simp add: upt_rec)
  show ?thesis
    by (simp add: main_readable[where fs = "fs_with products_text" and bytes = products_text]
        fs_with_def parse_file_examples(1) json_value_as_object_def json_value_as_array_def
        lookup_examples(1) idx json_array_get_item_def walk_nodes_eq print)
qed

subsection \<open>JSON: the recursion budget is never exhausted\<close>

lemma bind_res_no_fuel_error:
  assumes "m \<noteq> Inl Out_of_fuel" "\<And>x. m = Inr x \<Longrightarrow> f x \<noteq> Inl Out_of_fuel"
  shows "bind_res m f \<noteq> Inl Out_of_fuel"
  using assms by (cases m) auto

lemma skip_while_cursor:
  "lexer_skip_while mem p lx = Inr lx' \<Longrightarrow> cursor lx \<le> cursor lx'"
proof (induction mem p lx rule: lexer_skip_while.induct)
  case (1 mem p lx)
  from "1.prems" show ?case
    by (subst (asm) lexer_skip_while.simps)
       (auto split: if_splits sum.splits dest!: "1.IH")
qed

lemma skip_while_no_fuel_error:
  "lexer_skip_while mem p lx \<noteq> Inl Out_of_fuel"
proof (induction mem p lx rule: lexer_skip_while.induct)
  case (1 mem p lx)
  show ?case
    using "1.IH" by (subst lexer_skip_while.simps) (auto simp: peek_def split: sum.splits)
qed

lemma trim_left_cursor:
  "json_lexer_trim_left mem lx = Inr lx' \<Longrightarrow> cursor lx \<le> cursor lx'"
  by (auto simp: json_lexer_trim_left_def split: if_splits dest: skip_while_cursor)

lemma trim_left_no_fuel_error: "json_lexer_trim_left mem lx \<noteq> Inl Out_of_fuel"
  by (simp add: json_lexer_trim_left_def skip_while_no_fuel_error)

lemma peek_no_fuel_error: "peek mem lx \<noteq> Inl Out_of_fuel"
  by (simp add: peek_def)

lemma peek_in_bounds: "peek mem lx = Inr c \<Longrightarrow> cursor lx < length mem"
  by (simp add: peek_def split: if_splits)

lemma expect_char_cursor:
  "json_lexer_expect_char mem lx c = Inr lx' \<Longrightarrow>
   cursor lx' = Suc (cursor lx) \<and> cursor lx < length mem"
  by (auto simp: json_lexer_expect_char_def bind_res_Inr peek_def split: if_splits)

lemma expect_char_no_fuel_error: "json_lexer_expect_char mem lx c \<noteq> Inl Out_of_fuel"
  by (auto simp: json_lexer_expect_char_def peek_def)

lemma ignore_false_no_fuel_error:
  "ignore_false lx (json_lexer_expect_char mem lx c) \<noteq> Inl Out_of_fuel"
  using expect_char_no_fuel_error[of mem lx c]
  by (auto simp: ignore_false_def split: sum.splits)

lemma ignore_false_cases:
  assumes "ignore_false lx (json_lexer_expect_char mem lx c) = Inr lx1" "peek mem lx = Inr c"
  shows "(lx1 = lx \<and> json_is_empty lx) \<or> (cursor lx1 = Suc (cursor lx) \<and> cursor lx < length mem)"
  using assms
  by (auto simp: ignore_false_def json_lexer_expect_char_def peek_def split: sum.splits if_splits)

lemma strndup_no_fuel_error: "json_strndup mem arena str len \<noteq> Inl Out_of_fuel"
  by (auto simp: json_strndup_def json_alloc_def arena_write_def)

lemma array_append_no_fuel_error: "json_array_append arena array v \<noteq> Inl Out_of_fuel"
  by (auto simp: json_array_append_def json_alloc_def arena_write_def)

lemma object_append_no_fuel_error: "json_object_append arena object k v \<noteq> Inl Out_of_fuel"
  by (auto simp: json_object_append_def json_alloc_def arena_write_def)

lemma parse_number_cursor:
  "parse_number mem st = Inr (v, st') \<Longrightarrow> cursor (lexer st) \<le> cursor (lexer st')"
  by (auto simp: parse_number_def split: option.splits)

lemma parse_number_no_fuel_error: "parse_number mem st \<noteq> Inl Out_of_fuel"
  by (auto simp: parse_number_def split: option.splits)

lemma parse_string_cursor:
  "parse_string mem st = Inr (v, st') \<Longrightarrow> cursor (lexer st) \<le> cursor (lexer st')"
  by (auto simp: parse_string_def Let_def bind_res_Inr
           dest!: skip_while_cursor expect_char_cursor)

lemma parse_string_no_fuel_error: "parse_string mem st \<noteq> Inl Out_of_fuel"
  unfolding parse_string_def Let_def
  by (rule bind_res_no_fuel_error[OF skip_while_no_fuel_error],
      rule bind_res_no_fuel_error[OF strndup_no_fuel_error])
     (auto intro!: bind_res_no_fuel_error[OF expect_char_no_fuel_error])

lemma parse_boolean_cursor:
  "parse_boolean mem st = Inr (v, st') \<Longrightarrow> cursor (lexer st) \<le> cursor (lexer st')"
  by (auto simp: parse_boolean_def Let_def bind_res_Inr dest!: skip_while_cursor)

lemma parse_boolean_no_fuel_error: "parse_boolean mem st \<noteq> Inl Out_of_fuel"
  unfolding parse_boolean_def Let_def
  by (rule bind_res_no_fuel_error[OF skip_while_no_fuel_error],
      rule bind_res_no_fuel_error[OF strndup_no_fuel_error]) auto

lemma close_cursor:
  assumes "bind_res (json_lexer_trim_left mem (lexer st2))
             (\<lambda>lx3. bind_res (json_lexer_expect_char mem lx3 d)
                      (\<lambda>lx4. Inr (w, st2\<lparr>lexer := lx4\<rparr>))) = Inr (v, st')"
  shows "cursor (lexer st2) \<le> cursor (lexer st')"
  using assms by (auto simp: bind_res_Inr dest!: trim_left_cursor expect_char_cursor)

lemma close_no_fuel_error:
  "bind_res (json_lexer_trim_left mem lx)
     (\<lambda>lx3. bind_res (json_lexer_expect_char mem lx3 d) (\<lambda>lx4. Inr (g lx4)))
   \<noteq> Inl Out_of_fuel"
  by (rule bind_res_no_fuel_error[OF trim_left_no_fuel_error],
      rule bind_res_no_fuel_error[OF expect_char_no_fuel_error]) simp

lemma loop_then_close_no_fuel_error:
  assumes "loop \<noteq> Inl Out_of_fuel"
  shows "bind_res loop (\<lambda>(x, st2).
           bind_res (json_lexer_trim_left mem (lexer st2))
             (\<lambda>lx3. bind_res (json_lexer_expect_char mem lx3 d) (\<lambda>lx4. Inr (g x st2 lx4))))
         \<noteq> Inl Out_of_fuel"
  by (rule bind_res_no_fuel_error[OF assms]) (auto simp: close_no_fuel_error)

lemma ignore_false_cursor:
  "ignore_false lx (json_lexer_expect_char mem lx c) = Inr lx1 \<Longrightarrow> cursor lx \<le> cursor lx1"
  by (auto simp: ignore_false_def json_lexer_expect_char_def peek_def bind_res_Inr
           split: sum.splits if_splits)

lemma parse_fuel_cursor:
  "(\<forall>st v st'. parse_value_fuel n mem st = Inr (v, st') \<longrightarrow>
       cursor (lexer st) \<le> cursor (lexer st'))
   \<and> (\<forall>st item st'. parse_object_item_fuel n mem st = Inr (item, st') \<longrightarrow>
       cursor (lexer st) \<le> cursor (lexer st'))
   \<and> (\<forall>st object object' st'. parse_object_loop n mem st object = Inr (object', st') \<longrightarrow>
       cursor (lexer st) \<le> cursor (lexer st'))
   \<and> (\<forall>st array array' st'. parse_array_loop n mem st array = Inr (array', st') \<longrightarrow>
       cursor (lexer st) \<le> cursor (lexer st'))"
proof (induction n)
  case 0
  show ?case by simp
next
  case (Suc n)
  note IHv = Suc.IH[THEN conjunct1, rule_format]
  note IHi = Suc.IH[THEN conjunct2, THEN conjunct1, rule_format]
  note IHo = Suc.IH[THEN conjunct2, THEN conjunct2, THEN conjunct1, rule_format]
  note IHa = Suc.IH[THEN conjunct2, THEN conjunct2, THEN conjunct2, rule_format]
  have pv: "cursor (lexer st) \<le> cursor (lexer st')"
    if h: "parse_value_fuel (Suc n) mem st = Inr (v, st')" for st v st'
  proof -
    from h obtain lx c where lx: "json_lexer_trim_left mem (lexer st) = Inr lx"
      and c: "peek mem lx = Inr c"
      and body: "(if isdigit c \<or> c = CHR ''.'' then parse_number mem (st\<lparr>lexer := lx\<rparr>)
       else if c = CHR 0x22 then parse_string mem (st\<lparr>lexer := lx\<rparr>)
       else if c = CHR ''f'' \<or> c = CHR ''t'' then parse_boolean mem (st\<lparr>lexer := lx\<rparr>)
       else if c = CHR ''{'' then
         bind_res (ignore_false lx (json_lexer_expect_char mem lx CHR ''{'')) (\<lambda>lx1.
         bind_res (parse_object_loop n mem (st\<lparr>lexer := lx1\<rparr>) (JsonObject 0 [])) (\<lambda>(object, st2).
         bind_res (json_lexer_trim_left mem (lexer st2)) (\<lambda>lx3.
         bind_res (json_lexer_expect_char mem lx3 CHR ''}'') (\<lambda>lx4.
           Inr (JsonValue JSON_OBJECT (As_object object), st2\<lparr>lexer := lx4\<rparr>)))))
       else if c = CHR ''['' then
         bind_res (json_lexer_expect_char mem lx CHR ''['') (\<lambda>lx1.
         bind_res (parse_array_loop n mem (st\<lparr>lexer := lx1\<rparr>) (JsonArray 0 [])) (\<lambda>(array, st2).
         bind_res (json_lexer_trim_left mem (lexer st2)) (\<lambda>lx3.
         bind_res (json_lexer_expect_char mem lx3 CHR '']'') (\<lambda>lx4.
           Inr (JsonValue JSON_ARRAY (As_array array), st2\<lparr>lexer := lx4\<rparr>)))))
       else Inl (Unexpected_char c)) = Inr (v, st')"
      by (auto simp: bind_res_Inr)
    from trim_left_cursor[OF lx] have l0: "cursor (lexer st) \<le> cursor lx" .
    consider (num) "parse_number mem (st\<lparr>lexer := lx\<rparr>) = Inr (v, st')"
      | (str) "parse_string mem (st\<lparr>lexer := lx\<rparr>) = Inr (v, st')"
      | (bool) "parse_boolean mem (st\<lparr>lexer := lx\<rparr>) = Inr (v, st')"
      | (obj) lx1 object st2 where
          "ignore_false lx (json_lexer_expect_char mem lx CHR ''{'') = Inr lx1"
          "parse_object_loop n mem (st\<lparr>lexer := lx1\<rparr>) (JsonObject 0 []) = Inr (object, st2)"
          "bind_res (json_lexer_trim_left mem (lexer st2)) (\<lambda>lx3.
           bind_res (json_lexer_expect_char mem lx3 CHR ''}'') (\<lambda>lx4.
             Inr (JsonValue JSON_OBJECT (As_object object), st2\<lparr>lexer := lx4\<rparr>))) = Inr (v, st')"
      | (arr) lx1 array st2 where
          "json_lexer_expect_char mem lx CHR ''['' = Inr lx1"
          "parse_array_loop n mem (st\<lparr>lexer := lx1\<rparr>) (JsonArray 0 []) = Inr (array, st2)"
          "bind_res (json_lexer_trim_left mem (lexer st2)) (\<lambda>lx3.
           bind_res (json_lexer_expect_char mem lx3 CHR '']'') (\<lambda>lx4.
             Inr (JsonValue JSON_ARRAY (As_array array), st2\<lparr>lexer := lx4\<rparr>))) = Inr (v, st')"
      using body by (auto split: if_splits simp: bind_res_Inr)
    then show ?thesis
    proof cases
      case num
      from parse_number_cursor[OF num] l0 show ?thesis by simp
    next
      case str
      from parse_string_cursor[OF str] l0 show ?thesis by simp
    next
      case bool
      from parse_boolean_cursor[OF bool] l0 show ?thesis by simp
    next
      case obj
      from ignore_false_cursor[OF obj(1)] IHo[OF obj(2)] close_cursor[OF obj(3)] l0
      show ?thesis by simp
    next
      case arr
      from expect_char_cursor[OF arr(1)] IHa[OF arr(2)] close_cursor[OF arr(3)] l0
      show ?thesis by simp
    qed
  qed
  have pitem: "cursor (lexer st) \<le> cursor (lexer st')"
    if h: "parse_object_item_fuel (Suc n) mem st = Inr (item, st')" for st item st'
  proof -
    from h obtain lx lx1 lx2 lx3 lx4 arena1 v where
      a: "json_lexer_trim_left mem (lexer st) = Inr lx"
      and b: "json_lexer_expect_char mem lx (CHR 0x22) = Inr lx1"
      and c: "lexer_skip_while mem (\<lambda>c. c \<noteq> CHR 0x22) lx1 = Inr lx2"
      and d: "json_lexer_expect_char mem lx2 (CHR 0x22) = Inr lx3"
      and e: "json_lexer_expect_char mem lx3 CHR '':'' = Inr lx4"
      and f: "parse_value_fuel n mem \<lparr>lexer = lx4, json_arena_size = arena1\<rparr> = Inr (v, st')"
      by (auto simp: bind_res_Inr)
    from trim_left_cursor[OF a] expect_char_cursor[OF b] skip_while_cursor[OF c]
      expect_char_cursor[OF d] expect_char_cursor[OF e] IHv[OF f]
    show ?thesis by simp
  qed
  have objects: "cursor (lexer st) \<le> cursor (lexer st')"
    if h: "parse_object_loop (Suc n) mem st object = Inr (object', st')" for st object object' st'
  proof (cases "json_is_empty (lexer st)")
    case True
    with h show ?thesis by auto
  next
    case False
    with h obtain item st1 object1 arena1 c where
      it: "parse_object_item_fuel n mem st = Inr (item, st1)"
      and rest: "(if c = CHR '','' then
            bind_res (json_lexer_expect_char mem (lexer st1) CHR '','') (\<lambda>lx2.
              parse_object_loop n mem \<lparr>lexer = lx2, json_arena_size = arena1\<rparr> object1)
          else Inr (object1, st1\<lparr>json_arena_size := arena1\<rparr>)) = Inr (object', st')"
      by (auto simp: bind_res_Inr)
    show ?thesis
    proof (cases "c = CHR '',''")
      case True
      with rest obtain lx2 where e: "json_lexer_expect_char mem (lexer st1) CHR '','' = Inr lx2"
        and l: "parse_object_loop n mem \<lparr>lexer = lx2, json_arena_size = arena1\<rparr> object1
                  = Inr (object', st')"
        by (auto simp: bind_res_Inr)
      from IHi[OF it] expect_char_cursor[OF e] IHo[OF l] show ?thesis by simp
    next
      case False
      with rest IHi[OF it] show ?thesis by auto
    qed
  qed
  have arrays: "cursor (lexer st) \<le> cursor (lexer st')"
    if h: "parse_array_loop (Suc n) mem st array = Inr (array', st')" for st array array' st'
  proof (cases "json_is_empty (lexer st)")
    case True
    with h show ?thesis by auto
  next
    case False
    with h obtain v st1 array1 arena1 c where
      it: "parse_value_fuel n mem st = Inr (v, st1)"
      and rest: "(if c = CHR '','' then
            bind_res (json_lexer_expect_char mem (lexer st1) CHR '','') (\<lambda>lx2.
              parse_array_loop n mem \<lparr>lexer = lx2, json_arena_size = arena1\<rparr> array1)
          else Inr (array1, st1\<lparr>json_arena_size := arena1\<rparr>)) = Inr (array', st')"
      by (auto simp: bind_res_Inr)
    show ?thesis
    proof (cases "c = CHR '',''")
      case True
      with rest obtain lx2 where e: "json_lexer_expect_char mem (lexer st1) CHR '','' = Inr lx2"
        and l: "parse_array_loop n mem \<lparr>lexer = lx2, json_arena_size = arena1\<rparr> array1
                  = Inr (array', st')"
        by (auto simp: bind_res_Inr)
      from IHv[OF it] expect_char_cursor[OF e] IHa[OF l] show ?thesis by simp
    next
      case False
      with rest IHv[OF it] show ?thesis by auto
    qed
  qed
  from pv pitem objects arrays show ?case by blast
qed

lemma parse_fuel_enough:
  "(\<forall>st. 2 * (length mem - cursor (lexer st)) + 1 \<le> n \<longrightarrow>
       parse_value_fuel n mem st \<noteq> Inl Out_of_fuel)
   \<and> (\<forall>st. 2 * (length mem - cursor (lexer st)) + 1 \<le> n \<longrightarrow>
       parse_object_item_fuel n mem st \<noteq> Inl Out_of_fuel)
   \<and> (\<forall>st object.
         (json_is_empty (lexer st) \<and> 1 \<le> n) \<or> 2 * (length mem - cursor (lexer st)) + 2 \<le> n \<longrightarrow>
         parse_object_loop n mem st object \<noteq> Inl Out_of_fuel)
   \<and> (\<forall>st array.
         (json_is_empty (lexer st) \<and> 1 \<le> n) \<or> 2 * (length mem - cursor (lexer st)) + 2 \<le> n \<longrightarrow>
         parse_array_loop n mem st array \<noteq> Inl Out_of_fuel)"
proof (induction n)
  case 0
  show ?case by simp
next
  case (Suc n)
  note IHv = Suc.IH[THEN conjunct1, rule_format]
  note IHi = Suc.IH[THEN conjunct2, THEN conjunct1, rule_format]
  note IHo = Suc.IH[THEN conjunct2, THEN conjunct2, THEN conjunct1, rule_format]
  note IHa = Suc.IH[THEN conjunct2, THEN conjunct2, THEN conjunct2, rule_format]
  note cur_v = parse_fuel_cursor[of n mem, THEN conjunct1, rule_format]
  note cur_i = parse_fuel_cursor[of n mem, THEN conjunct2, THEN conjunct1, rule_format]
  have pv: "parse_value_fuel (Suc n) mem st \<noteq> Inl Out_of_fuel"
    if h: "2 * (length mem - cursor (lexer st)) + 1 \<le> Suc n" for st
    unfolding parse_value_fuel.simps
  proof (rule bind_res_no_fuel_error[OF trim_left_no_fuel_error],
         rule bind_res_no_fuel_error[OF peek_no_fuel_error])
    fix lx c
    assume lx: "json_lexer_trim_left mem (lexer st) = Inr lx" and c: "peek mem lx = Inr c"
    from trim_left_cursor[OF lx] have l0: "cursor (lexer st) \<le> cursor lx" .
    from peek_in_bounds[OF c] have l1: "cursor lx < length mem" .
    have obj: "bind_res (ignore_false lx (json_lexer_expect_char mem lx CHR ''{'')) (\<lambda>lx1.
         bind_res (parse_object_loop n mem (st\<lparr>lexer := lx1\<rparr>) (JsonObject 0 [])) (\<lambda>(object, st2).
         bind_res (json_lexer_trim_left mem (lexer st2)) (\<lambda>lx3.
         bind_res (json_lexer_expect_char mem lx3 CHR ''}'') (\<lambda>lx4.
           Inr (JsonValue JSON_OBJECT (As_object object), st2\<lparr>lexer := lx4\<rparr>)))))
         \<noteq> Inl Out_of_fuel" if "c = CHR ''{''"
    proof (rule bind_res_no_fuel_error[OF ignore_false_no_fuel_error])
      fix lx1
      assume i: "ignore_false lx (json_lexer_expect_char mem lx CHR ''{'') = Inr lx1"
      from ignore_false_cases[OF i c[unfolded that]] l0 l1 h
      have "(json_is_empty (lexer (st\<lparr>lexer := lx1\<rparr>)) \<and> 1 \<le> n)
            \<or> 2 * (length mem - cursor (lexer (st\<lparr>lexer := lx1\<rparr>))) + 2 \<le> n"
        by auto
      from IHo[OF this]
      have "parse_object_loop n mem (st\<lparr>lexer := lx1\<rparr>) (JsonObject 0 []) \<noteq> Inl Out_of_fuel" .
      from loop_then_close_no_fuel_error[OF this]
      show "bind_res (parse_object_loop n mem (st\<lparr>lexer := lx1\<rparr>) (JsonObject 0 [])) (\<lambda>(object, st2).
         bind_res (json_lexer_trim_left mem (lexer st2)) (\<lambda>lx3.
         bind_res (json_lexer_expect_char mem lx3 CHR ''}'') (\<lambda>lx4.
           Inr (JsonValue JSON_OBJECT (As_object object), st2\<lparr>lexer := lx4\<rparr>))))
         \<noteq> Inl Out_of_fuel" .
    qed
    have arr: "bind_res (json_lexer_expect_char mem lx CHR ''['') (\<lambda>lx1.
         bind_res (parse_array_loop n mem (st\<lparr>lexer := lx1\<rparr>) (JsonArray 0 [])) (\<lambda>(array, st2).
         bind_res (json_lexer_trim_left mem (lexer st2)) (\<lambda>lx3.
         bind_res (json_lexer_expect_char mem lx3 CHR '']'') (\<lambda>lx4.
           Inr (JsonValue JSON_ARRAY (As_array array), st2\<lparr>lexer := lx4\<rparr>)))))
         \<noteq> Inl Out_of_fuel"
    proof (rule bind_res_no_fuel_error[OF expect_char_no_fuel_error])
      fix lx1
      assume i: "json_lexer_expect_char mem lx CHR ''['' = Inr lx1"
      from expect_char_cursor[OF i] l0 l1 h
      have "(json_is_empty (lexer (st\<lparr>lexer := lx1\<rparr>)) \<and> 1 \<le> n)
            \<or> 2 * (length mem - cursor (lexer (st\<lparr>lexer := lx1\<rparr>))) + 2 \<le> n"
        by auto
      from IHa[OF this]
      have "parse_array_loop n mem (st\<lparr>lexer := lx1\<rparr>) (JsonArray 0 []) \<noteq> Inl Out_of_fuel" .
      from loop_then_close_no_fuel_error[OF this]
      show "bind_res (parse_array_loop n mem (st\<lparr>lexer := lx1\<rparr>) (JsonArray 0 [])) (\<lambda>(array, st2).
         bind_res (json_lexer_trim_left mem (lexer st2)) (\<lambda>lx3.
         bind_res (json_lexer_expect_char mem lx3 CHR '']'') (\<lambda>lx4.
           Inr (JsonValue JSON_ARRAY (As_array array), st2\<lparr>lexer := lx4\<rparr>))))
         \<noteq> Inl Out_of_fuel" .
    qed
    from obj arr
    show "(if isdigit c \<or> c = CHR ''.'' then parse_number mem (st\<lparr>lexer := lx\<rparr>)
       else if c = CHR 0x22 then parse_string mem (st\<lparr>lexer := lx\<rparr>)
       else if c = CHR ''f'' \<or> c = CHR ''t'' then parse_boolean mem (st\<lparr>lexer := lx\<rparr>)
       else if c = CHR ''{'' then
         bind_res (ignore_false lx (json_lexer_expect_char mem lx CHR ''{'')) (\<lambda>lx1.
         bind_res (parse_object_loop n mem (st\<lparr>lexer := lx1\<rparr>) (JsonObject 0 [])) (\<lambda>(object, st2).
         bind_res (json_lexer_trim_left mem (lexer st2)) (\<lambda>lx3.
         bind_res (json_lexer_expect_char mem lx3 CHR ''}'') (\<lambda>lx4.
           Inr (JsonValue JSON_OBJECT (As_object object), st2\<lparr>lexer := lx4\<rparr>)))))
       else if c = CHR ''['' then
         bind_res (json_lexer_expect_char mem lx CHR ''['') (\<lambda>lx1.
         bind_res (parse_array_loop n mem (st\<lparr>lexer := lx1\<rparr>) (JsonArray 0 [])) (\<lambda>(array, st2).
         bind_res (json_lexer_trim_left mem (lexer st2)) (\<lambda>lx3.
         bind_res (json_lexer_expect_char mem lx3 CHR '']'') (\<lambda>lx4.
           Inr (JsonValue JSON_ARRAY (As_array array), st2\<lparr>lexer := lx4\<rparr>)))))
       else Inl (Unexpected_char c)) \<noteq> Inl Out_of_fuel"
      by (simp add: parse_number_no_fuel_error parse_string_no_fuel_error
            parse_boolean_no_fuel_error del: bind_res.simps)
  qed
  have pitem: "parse_object_item_fuel (Suc n) mem st \<noteq> Inl Out_of_fuel"
    if h: "2 * (length mem - cursor (lexer st)) + 1 \<le> Suc n" for st
    unfolding parse_object_item_fuel.simps
  proof (rule bind_res_no_fuel_error[OF trim_left_no_fuel_error],
         rule bind_res_no_fuel_error[OF expect_char_no_fuel_error],
         rule bind_res_no_fuel_error[OF skip_while_no_fuel_error],
         rule bind_res_no_fuel_error[OF strndup_no_fuel_error])
    fix lx lx1 lx2 x
    assume a: "json_lexer_trim_left mem (lexer st) = Inr lx"
      and b: "json_lexer_expect_char mem lx (CHR 0x22) = Inr lx1"
      and c: "lexer_skip_while mem (\<lambda>c. c \<noteq> CHR 0x22) lx1 = Inr lx2"
      and s: "json_strndup mem (json_arena_size st) (cursor lx1)
                (size_t_of_int (int_of_ptrdiff (cursor lx2 - cursor lx1))) = Inr x"
    obtain k arena1 where x: "x = (k, arena1)" by (cases x)
    have "bind_res (json_lexer_expect_char mem lx2 (CHR 0x22)) (\<lambda>lx3.
     bind_res (json_lexer_expect_char mem lx3 CHR '':'') (\<lambda>lx4.
     bind_res (parse_value_fuel n mem \<lparr>lexer = lx4, json_arena_size = arena1\<rparr>) (\<lambda>(v, st5).
       Inr (JsonObjectItem k v, st5)))) \<noteq> Inl Out_of_fuel"
    proof (rule bind_res_no_fuel_error[OF expect_char_no_fuel_error],
           rule bind_res_no_fuel_error[OF expect_char_no_fuel_error])
      fix lx3 lx4
      assume d: "json_lexer_expect_char mem lx2 (CHR 0x22) = Inr lx3"
        and e: "json_lexer_expect_char mem lx3 CHR '':'' = Inr lx4"
      from trim_left_cursor[OF a] expect_char_cursor[OF b] skip_while_cursor[OF c]
        expect_char_cursor[OF d] expect_char_cursor[OF e] h
      have "2 * (length mem - cursor (lexer \<lparr>lexer = lx4, json_arena_size = arena1\<rparr>)) + 1 \<le> n"
        by auto
      from IHv[OF this]
      show "bind_res (parse_value_fuel n mem \<lparr>lexer = lx4, json_arena_size = arena1\<rparr>) (\<lambda>(v, st5).
         Inr (JsonObjectItem k v, st5)) \<noteq> Inl Out_of_fuel"
        by (rule bind_res_no_fuel_error) auto
    qed
    with x show "(case x of (k, arena') \<Rightarrow>
       bind_res (json_lexer_expect_char mem lx2 (CHR 0x22)) (\<lambda>lx3.
       bind_res (json_lexer_expect_char mem lx3 CHR '':'') (\<lambda>lx4.
       bind_res (parse_value_fuel n mem \<lparr>lexer = lx4, json_arena_size = arena'\<rparr>) (\<lambda>(v, st5).
         Inr (JsonObjectItem k v, st5))))) \<noteq> Inl Out_of_fuel"
      by (simp del: bind_res.simps)
  qed
  have objects: "parse_object_loop (Suc n) mem st object \<noteq> Inl Out_of_fuel"
    if h: "(json_is_empty (lexer st) \<and> 1 \<le> Suc n)
           \<or> 2 * (length mem - cursor (lexer st)) + 2 \<le> Suc n" for st object
  proof (cases "json_is_empty (lexer st)")
    case True
    then show ?thesis by simp
  next
    case False
    with h have h': "2 * (length mem - cursor (lexer st)) + 1 \<le> n" by simp
    have "bind_res (parse_object_item_fuel n mem st) (\<lambda>(item, st1).
        bind_res (json_object_append (json_arena_size st1) object (i_key item) (i_value item))
          (\<lambda>(object', arena').
        bind_res (peek mem (lexer st1)) (\<lambda>c.
          if c = CHR '','' then
            bind_res (json_lexer_expect_char mem (lexer st1) CHR '','') (\<lambda>lx2.
              parse_object_loop n mem \<lparr>lexer = lx2, json_arena_size = arena'\<rparr> object')
          else Inr (object', st1\<lparr>json_arena_size := arena'\<rparr>)))) \<noteq> Inl Out_of_fuel"
    proof (rule bind_res_no_fuel_error[OF IHi[OF h']])
      fix x
      assume it: "parse_object_item_fuel n mem st = Inr x"
      obtain item st1 where x: "x = (item, st1)" by (cases x)
      from cur_i[OF it[unfolded x]] have l0: "cursor (lexer st) \<le> cursor (lexer st1)" .
      have "bind_res (json_object_append (json_arena_size st1) object (i_key item) (i_value item))
          (\<lambda>(object', arena').
        bind_res (peek mem (lexer st1)) (\<lambda>c.
          if c = CHR '','' then
            bind_res (json_lexer_expect_char mem (lexer st1) CHR '','') (\<lambda>lx2.
              parse_object_loop n mem \<lparr>lexer = lx2, json_arena_size = arena'\<rparr> object')
          else Inr (object', st1\<lparr>json_arena_size := arena'\<rparr>))) \<noteq> Inl Out_of_fuel"
      proof (rule bind_res_no_fuel_error[OF object_append_no_fuel_error])
        fix y
        assume "json_object_append (json_arena_size st1) object (i_key item) (i_value item) = Inr y"
        obtain object1 arena1 where y: "y = (object1, arena1)" by (cases y)
        have "bind_res (peek mem (lexer st1)) (\<lambda>c.
          if c = CHR '','' then
            bind_res (json_lexer_expect_char mem (lexer st1) CHR '','') (\<lambda>lx2.
              parse_object_loop n mem \<lparr>lexer = lx2, json_arena_size = arena1\<rparr> object1)
          else Inr (object1, st1\<lparr>json_arena_size := arena1\<rparr>)) \<noteq> Inl Out_of_fuel"
        proof (rule bind_res_no_fuel_error[OF peek_no_fuel_error])
          fix c
          have "bind_res (json_lexer_expect_char mem (lexer st1) CHR '','') (\<lambda>lx2.
              parse_object_loop n mem \<lparr>lexer = lx2, json_arena_size = arena1\<rparr> object1)
              \<noteq> Inl Out_of_fuel"
          proof (rule bind_res_no_fuel_error[OF expect_char_no_fuel_error])
            fix lx2
            assume e: "json_lexer_expect_char mem (lexer st1) CHR '','' = Inr lx2"
            from expect_char_cursor[OF e] l0 h'
            have "(json_is_empty (lexer \<lparr>lexer = lx2, json_arena_size = arena1\<rparr>) \<and> 1 \<le> n)
              \<or> 2 * (length mem - cursor (lexer \<lparr>lexer = lx2, json_arena_size = arena1\<rparr>)) + 2 \<le> n"
              by auto
            from IHo[OF this]
            show "parse_object_loop n mem \<lparr>lexer = lx2, json_arena_size = arena1\<rparr> object1
                    \<noteq> Inl Out_of_fuel" .
          qed
          then show "(if c = CHR '','' then
            bind_res (json_lexer_expect_char mem (lexer st1) CHR '','') (\<lambda>lx2.
              parse_object_loop n mem \<lparr>lexer = lx2, json_arena_size = arena1\<rparr> object1)
          else Inr (object1, st1\<lparr>json_arena_size := arena1\<rparr>)) \<noteq> Inl Out_of_fuel"
            by (simp del: bind_res.simps)
        qed
        with y show "(case y of (object', arena') \<Rightarrow>
          bind_res (peek mem (lexer st1)) (\<lambda>c.
          if c = CHR '','' then
            bind_res (json_lexer_expect_char mem (lexer st1) CHR '','') (\<lambda>lx2.
              parse_object_loop n mem \<lparr>lexer = lx2, json_arena_size = arena'\<rparr> object')
          else Inr (object', st1\<lparr>json_arena_size := arena'\<rparr>))) \<noteq> Inl Out_of_fuel"
          by (simp del: bind_res.simps)
      qed
      with x show "(case x of (item, st1) \<Rightarrow>
        bind_res (json_object_append (json_arena_size st1) object (i_key item) (i_value item))
          (\<lambda>(object', arena').
        bind_res (peek mem (lexer st1)) (\<lambda>c.
          if c = CHR '','' then
            bind_res (json_lexer_expect_char mem (lexer st1) CHR '','') (\<lambda>lx2.
              parse_object_loop n mem \<lparr>lexer = lx2, json_arena_size = arena'\<rparr> object')
          else Inr (object', st1\<lparr>json_arena_size := arena'\<rparr>)))) \<noteq> Inl Out_of_fuel"
        by (simp del: bind_res.simps)
    qed
    with False show ?thesis by (simp del: bind_res.simps)
  qed
  have arrays: "parse_array_loop (Suc n) mem st array \<noteq> Inl Out_of_fuel"
    if h: "(json_is_empty (lexer st) \<and> 1 \<le> Suc n)
           \<or> 2 * (length mem - cursor (lexer st)) + 2 \<le> Suc n" for st array
  proof (cases "json_is_empty (lexer st)")
    case True
    then show ?thesis by simp
  next
    case False
    with h have h': "2 * (length mem - cursor (lexer st)) + 1 \<le> n" by simp
    have "bind_res (parse_value_fuel n mem st) (\<lambda>(value1, st1).
        bind_res (json_array_append (json_arena_size st1) array value1) (\<lambda>(array', arena').
        bind_res (peek mem (lexer st1)) (\<lambda>c.
          if c = CHR '','' then
            bind_res (json_lexer_expect_char mem (lexer st1) CHR '','') (\<lambda>lx2.
              parse_array_loop n mem \<lparr>lexer = lx2, json_arena_size = arena'\<rparr> array')
          else Inr (array', st1\<lparr>json_arena_size := arena'\<rparr>)))) \<noteq> Inl Out_of_fuel"
    proof (rule bind_res_no_fuel_error[OF IHv[OF h']])
      fix x
      assume it: "parse_value_fuel n mem st = Inr x"
      obtain value1 st1 where x: "x = (value1, st1)" by (cases x)
      from cur_v[OF it[unfolded x]] have l0: "cursor (lexer st) \<le> cursor (lexer st1)" .
      have "bind_res (json_array_append (json_arena_size st1) array value1) (\<lambda>(array', arena').
        bind_res (peek mem (lexer st1)) (\<lambda>c.
          if c = CHR '','' then
            bind_res (json_lexer_expect_char mem (lexer st1) CHR '','') (\<lambda>lx2.
              parse_array_loop n mem \<lparr>lexer = lx2, json_arena_size = arena'\<rparr> array')
          else Inr (array', st1\<lparr>json_arena_size := arena'\<rparr>))) \<noteq> Inl Out_of_fuel"
      proof (rule bind_res_no_fuel_error[OF array_append_no_fuel_error])
        fix y
        assume "json_array_append (json_arena_size st1) array value1 = Inr y"
        obtain array1 arena1 where y: "y = (array1, arena1)" by (cases y)
        have "bind_res (peek mem (lexer st1)) (\<lambda>c.
          if c = CHR '','' then
            bind_res (json_lexer_expect_char mem (lexer st1) CHR '','') (\<lambda>lx2.
              parse_array_loop n mem \<lparr>lexer = lx2, json_arena_size = arena1\<rparr> array1)
          else Inr (array1, st1\<lparr>json_arena_size := arena1\<rparr>)) \<noteq> Inl Out_of_fuel"
        proof (rule bind_res_no_fuel_error[OF peek_no_fuel_error])
          fix c
          have "bind_res (json_lexer_expect_char mem (lexer st1) CHR '','') (\<lambda>lx2.
              parse_array_loop n mem \<lparr>lexer = lx2, json_arena_size = arena1\<rparr> array1)
              \<noteq> Inl Out_of_fuel"
          proof (rule bind_res_no_fuel_error[OF expect_char_no_fuel_error])
            fix lx2
            assume e: "json_lexer_expect_char mem (lexer st1) CHR '','' = Inr lx2"
            from expect_char_cursor[OF e] l0 h'
            have "(json_is_empty (lexer \<lparr>lexer = lx2, json_arena_size = arena1\<rparr>) \<and> 1 \<le> n)
              \<or> 2 * (length mem - cursor (lexer \<lparr>lexer = lx2, json_arena_size = arena1\<rparr>)) + 2 \<le> n"
              by auto
            from IHa[OF this]
            show "parse_array_loop n mem \<lparr>lexer = lx2, json_arena_size = arena1\<rparr> array1
                    \<noteq> Inl Out_of_fuel" .
          qed
          then show "(if c = CHR '','' then
            bind_res (json_lexer_expect_char mem (lexer st1) CHR '','') (\<lambda>lx2.
              parse_array_loop n mem \<lparr>lexer = lx2, json_arena_size = arena1\<rparr> array1)
          else Inr (array1, st1\<lparr>json_arena_size := arena1\<rparr>)) \<noteq> Inl Out_of_fuel"
            by (simp del: bind_res.simps)
        qed
        with y show "(case y of (array', arena') \<Rightarrow>
          bind_res (peek mem (lexer st1)) (\<lambda>c.
          if c = CHR '','' then
            bind_res (json_lexer_expect_char mem (lexer st1) CHR '','') (\<lambda>lx2.
              parse_array_loop n mem \<lparr>lexer = lx2, json_arena_size = arena'\<rparr> array')
          else Inr (array', st1\<lparr>json_arena_size := arena'\<rparr>))) \<noteq> Inl Out_of_fuel"
          by (simp del: bind_res.simps)
      qed
      with x show "(case x of (value1, st1) \<Rightarrow>
        bind_res (json_array_append (json_arena_size st1) array value1) (\<lambda>(array', arena').
        bind_res (peek mem (lexer st1)) (\<lambda>c.
          if c = CHR '','' then
            bind_res (json_lexer_expect_char mem (lexer st1) CHR '','') (\<lambda>lx2.
              parse_array_loop n mem \<lparr>lexer = lx2, json_arena_size = arena'\<rparr> array')
          else Inr (array', st1\<lparr>json_arena_size := arena'\<rparr>)))) \<noteq> Inl Out_of_fuel"
        by (simp del: bind_res.simps)
    qed
    with False show ?thesis by (simp del: bind_res.simps)
  qed
  from pv pitem objects arrays show ?case by blast
qed

lemma parse_value_fuel_enough: "json_lexer_parse_value mem st \<noteq> Inl Out_of_fuel"
  unfolding json_lexer_parse_value_def parse_fuel_def
  by (rule parse_fuel_enough[THEN conjunct1, rule_format]) simp

lemma parse_object_item_fuel_enough: "json_lexer_parse_object_item mem st \<noteq> Inl Out_of_fuel"
  unfolding json_lexer_parse_object_item_def parse_fuel_def
  by (rule parse_fuel_enough[THEN conjunct2, THEN conjunct1, rule_format]) simp

end
